theory Spec2Isabelle
  imports Complex_Main "HOL-Library.Stream"
begin

section \<open>Values and data of the snake server\<close>

text \<open>
  The development follows the newest revision of the server (\<^verbatim>\<open>src/unnamed/part_001\<close>),
  the one with \<^verbatim>\<open>pendingDirection\<close>, \<^verbatim>\<open>FOOD_SCORE\<close> and the bounded food
  generator. Functions of \<^verbatim>\<open>src/server.js\<close> that differ from it are embedded next to
  it under the prefix \<open>srv_\<close>, and the head computation of the oldest revision
  (\<^verbatim>\<open>src/unnamed/part_000\<close>) as \<open>moveSnake_head\<close>.
\<close>

subsection \<open>JSON values\<close>

text \<open>
  What \<^verbatim>\<open>JSON.parse\<close> returns, plus \<^verbatim>\<open>undefined\<close> (a missing property). A
  client's \<^verbatim>\<open>direction\<close> is stored into the player verbatim, so a player's direction is
  such a value and not an enumeration. Numbers are kept as integers: the server only ever tests
  a received number for truthiness.
\<close>

datatype jsval =
    JUndefined
  | JNull
  | JBool bool
  | JNum int
  | JStr string
  | JArr "jsval list"
  | JObj "(string \<times> jsval) list"

datatype js_error = SyntaxError | TypeError

text \<open>JavaScript's ToBoolean.\<close>

fun truthy :: "jsval \<Rightarrow> bool" where
  "truthy JUndefined = False"
| "truthy JNull = False"
| "truthy (JBool b) = b"
| "truthy (JNum n) = (n \<noteq> 0)"
| "truthy (JStr s) = (s \<noteq> [])"
| "truthy (JArr _) = True"
| "truthy (JObj _) = True"

text \<open>
  Property read \<^verbatim>\<open>data.k\<close> for the keys the server reads (\<^verbatim>\<open>type\<close>,
  \<^verbatim>\<open>direction\<close>, \<^verbatim>\<open>name\<close>, none of them a prototype property): a TypeError on
  \<^verbatim>\<open>null\<close>, the own property of an object, \<^verbatim>\<open>undefined\<close> otherwise.
\<close>

fun getProp :: "jsval \<Rightarrow> string \<Rightarrow> js_error + jsval" where
  "getProp JNull k = Inl TypeError"
| "getProp JUndefined k = Inl TypeError"
| "getProp (JObj kvs) k = Inr (case map_of kvs k of None \<Rightarrow> JUndefined | Some v \<Rightarrow> v)"
| "getProp v k = Inr JUndefined"

subsection \<open>Positions, players, game state\<close>

text \<open>
  A position is the pair of \<^verbatim>\<open>x\<close> and \<^verbatim>\<open>y\<close>. A player has the fields of the object
  of lines 58 to 68 but \<^verbatim>\<open>ws\<close>; \<open>pid\<close> is its \<^verbatim>\<open>id\<close>.
\<close>

type_synonym position = "int \<times> int"

record player =
  pid :: string
  name :: string
  snake :: "position list"
  direction :: jsval
  pendingDirection :: jsval
  score :: int
  color :: jsval
  alive :: bool

text \<open>
  \<open>players\<close> lists the entries of the \<^verbatim>\<open>gameState.players\<close> object in the order
  \<^verbatim>\<open>Object.values\<close> and \<^verbatim>\<open>Object.entries\<close> enumerate them. \<open>food\<close> is \<open>None\<close>
  for \<^verbatim>\<open>null\<close>. \<open>gameInterval\<close> tells whether the timer is set. \<open>rng\<close> is the state of
  \<^verbatim>\<open>Math.random\<close>: the numbers in \<open>[0, 1)\<close> it is going to return, in order. The
  WebSocket of a player and everything that is sent over it are left out; sending is taken
  not to throw.
\<close>

record gameState =
  players :: "(string \<times> player) list"
  food :: "position option"
  gameInterval :: bool
  rng :: "real stream"

definition GRID_SIZE :: int where
  "GRID_SIZE = 25"

definition FOOD_SCORE :: int where
  "FOOD_SCORE = 1"

text \<open>JavaScript's \<^verbatim>\<open>%\<close> on integers: the remainder carries the sign of the dividend.\<close>

definition js_rem :: "int \<Rightarrow> int \<Rightarrow> int" where
  "js_rem a b = sgn a * (\<bar>a\<bar> mod \<bar>b\<bar>)"

definition Math_random :: "real stream \<Rightarrow> real \<times> real stream" where
  "Math_random r = (shd r, stl r)"

definition getRandomPosition :: "real stream \<Rightarrow> position \<times> real stream" where
  "getRandomPosition r =
     (let (u, r1) = Math_random r;
          (v, r2) = Math_random r1
      in ((\<lfloor>u * real_of_int GRID_SIZE\<rfloor>, \<lfloor>v * real_of_int GRID_SIZE\<rfloor>), r2))"

section \<open>Movement\<close>

text \<open>The \<^verbatim>\<open>switch (player.direction)\<close> of \<^verbatim>\<open>movePlayer\<close>: no case, no move.\<close>

definition shiftHead :: "jsval \<Rightarrow> position \<Rightarrow> position" where
  "shiftHead d h =
     (if d = JStr ''up'' then (fst h, snd h - 1)
      else if d = JStr ''down'' then (fst h, snd h + 1)
      else if d = JStr ''left'' then (fst h - 1, snd h)
      else if d = JStr ''right'' then (fst h + 1, snd h)
      else h)"

definition wrapHead :: "position \<Rightarrow> position" where
  "wrapHead h = (js_rem (fst h + GRID_SIZE) GRID_SIZE, js_rem (snd h + GRID_SIZE) GRID_SIZE)"

text \<open>
  Lines 175 to 187 of \<^verbatim>\<open>movePlayer\<close> (126 to 141 in server.js): the new head of a
  snake whose head is \<open>h\<close>.
\<close>

definition newHead :: "jsval \<Rightarrow> position \<Rightarrow> position" where
  "newHead d h = wrapHead (shiftHead d h)"

text \<open>A position of the grid.\<close>

definition onGrid :: "position \<Rightarrow> bool" where
  "onGrid p \<longleftrightarrow> 0 \<le> fst p \<and> fst p < GRID_SIZE \<and> 0 \<le> snd p \<and> snd p < GRID_SIZE"

section \<open>Food\<close>

text \<open>
  The \<^verbatim>\<open>some\<close> of \<^verbatim>\<open>generateFood\<close>: a segment of any player's snake, alive or
  not, lies on the cell.
\<close>

definition positionOccupied :: "(string \<times> player) list \<Rightarrow> position \<Rightarrow> bool" where
  "positionOccupied ps f = list_ex (\<lambda>kp. list_ex (\<lambda>s. s = f) (snake (snd kp))) ps"

definition maxAttempts :: nat where
  "maxAttempts = 100"

text \<open>
  The \<^verbatim>\<open>do ... while (true)\<close> of \<^verbatim>\<open>generateFood\<close>; \<open>attempts\<close> is the counter
  on entry to the body.
\<close>

function generateFood_loop ::
    "(string \<times> player) list \<Rightarrow> real stream \<Rightarrow> nat \<Rightarrow> position \<times> real stream" where
  "generateFood_loop ps r attempts =
     (case getRandomPosition r of
        (f, r') \<Rightarrow>
          if \<not> positionOccupied ps f \<or> maxAttempts \<le> Suc attempts then (f, r')
          else generateFood_loop ps r' (Suc attempts))"
  by pat_completeness auto
termination
  by (relation "measure (\<lambda>(ps, r, attempts). maxAttempts - attempts)") auto

declare generateFood_loop.simps [simp del]

definition generateFood :: "gameState \<Rightarrow> position \<times> real stream" where
  "generateFood w = generateFood_loop (players w) (rng w) 0"

text \<open>
  The \<open>j\<close>-th position \<^verbatim>\<open>getRandomPosition\<close> returns when it is called again and again
  from the state \<open>r\<close> of \<^verbatim>\<open>Math.random\<close>; each call reads two numbers.
\<close>

definition candidate :: "real stream \<Rightarrow> nat \<Rightarrow> position" where
  "candidate r j = fst (getRandomPosition (sdrop (2 * j) r))"

text \<open>A segment of a snake that is alive lies on the cell.\<close>

definition occupiedByLiving :: "(string \<times> player) list \<Rightarrow> position \<Rightarrow> bool" where
  "occupiedByLiving ps f = list_ex (\<lambda>kp. alive (snd kp) \<and> list_ex (\<lambda>s. s = f) (snake (snd kp))) ps"

section \<open>The tick\<close>

text \<open>Assignment to the player object that is the \<open>i\<close>-th value of \<^verbatim>\<open>gameState.players\<close>.\<close>

definition setPlayer :: "nat \<Rightarrow> player \<Rightarrow> gameState \<Rightarrow> gameState" where
  "setPlayer i p w = w\<lparr>players := (players w)[i := (fst (players w ! i), p)]\<rparr>"

text \<open>
  \<^verbatim>\<open>movePlayer\<close> on the \<open>i\<close>-th player. A snake with no segment (no player of the server
  ever has one) is left as it is: its head is \<^verbatim>\<open>undefined\<close>, the copy is \<^verbatim>\<open>{}\<close>, the
  coordinates become \<^verbatim>\<open>NaN\<close>, which equals no food coordinate, and the \<^verbatim>\<open>pop\<close> removes
  the segment that \<^verbatim>\<open>unshift\<close> has just added.
\<close>

definition movePlayer :: "nat \<Rightarrow> gameState \<Rightarrow> gameState" where
  "movePlayer i w =
     (let player = snd (players w ! i) in
      if \<not> alive player then w
      else case snake player of
        [] \<Rightarrow> w
      | h # _ \<Rightarrow>
          let head = newHead (direction player) h;
              grown = player\<lparr>snake := head # snake player\<rparr>
          in if food w = Some head then
               let w2 = setPlayer i (grown\<lparr>score := score grown + FOOD_SCORE\<rparr>) w;
                   (f, r) = generateFood w2
               in w2\<lparr>food := Some f, rng := r\<rparr>
             else setPlayer i (grown\<lparr>snake := butlast (snake grown)\<rparr>) w)"

text \<open>
  \<^verbatim>\<open>Object.values(gameState.players).forEach(movePlayer)\<close>, and the state after its
  first \<open>n\<close> calls.
\<close>

definition movePlayersUpTo :: "nat \<Rightarrow> gameState \<Rightarrow> gameState" where
  "movePlayersUpTo n w = foldl (\<lambda>w' i. movePlayer i w') w [0..<n]"

definition movePlayers :: "gameState \<Rightarrow> gameState" where
  "movePlayers w = movePlayersUpTo (length (players w)) w"

text \<open>The first loop of \<^verbatim>\<open>updateGame\<close>, on one player and on all.\<close>

definition commitDirection :: "player \<Rightarrow> player" where
  "commitDirection p =
     (if truthy (pendingDirection p) \<and> alive p
      then p\<lparr>direction := pendingDirection p, pendingDirection := JNull\<rparr>
      else p)"

definition commitDirections :: "gameState \<Rightarrow> gameState" where
  "commitDirections w = w\<lparr>players := map (\<lambda>kp. (fst kp, commitDirection (snd kp))) (players w)\<rparr>"

subsection \<open>Collisions\<close>

text \<open>The objects of \<^verbatim>\<open>allSegments\<close>, with the fields \<^verbatim>\<open>x\<close>, \<^verbatim>\<open>y\<close>, \<^verbatim>\<open>playerId\<close>, \<^verbatim>\<open>isHead\<close>.\<close>

record segment =
  seg_x :: int
  seg_y :: int
  seg_playerId :: string
  seg_isHead :: bool

definition snakeSegments :: "player \<Rightarrow> segment list" where
  "snakeSegments p =
     map (\<lambda>(i, s). \<lparr>seg_x = fst s, seg_y = snd s, seg_playerId = pid p, seg_isHead = (i = 0)\<rparr>)
       (enumerate 0 (snake p))"

definition allSegments :: "(string \<times> player) list \<Rightarrow> segment list" where
  "allSegments ps = concat (map (\<lambda>kp. if alive (snd kp) then snakeSegments (snd kp) else []) ps)"

text \<open>
  The predicate given to \<^verbatim>\<open>allSegments.find\<close>, and whether \<^verbatim>\<open>find\<close> finds a
  segment. With no head (\<^verbatim>\<open>player.snake[0]\<close> is \<^verbatim>\<open>undefined\<close>) the first call of the
  predicate throws a TypeError at \<^verbatim>\<open>head.x\<close>.
\<close>

definition hits :: "player \<Rightarrow> position \<Rightarrow> segment \<Rightarrow> bool" where
  "hits p head s \<longleftrightarrow>
     seg_x s = fst head \<and> seg_y s = snd head \<and> (seg_playerId s \<noteq> pid p \<or> \<not> seg_isHead s)"

definition collision :: "segment list \<Rightarrow> player \<Rightarrow> js_error + bool" where
  "collision segs p =
     (case snake p of
        [] \<Rightarrow> if segs = [] then Inr False else Inl TypeError
      | head # _ \<Rightarrow> Inr (list_ex (hits p head) segs))"

text \<open>
  The second \<^verbatim>\<open>forEach\<close> of \<^verbatim>\<open>checkCollisions\<close>. A throw leaves the players before
  the throwing one as the loop has set them and the others untouched; \<open>Inl\<close> carries that list.
\<close>

fun checkEach ::
    "segment list \<Rightarrow> (string \<times> player) list \<Rightarrow>
      (js_error \<times> (string \<times> player) list) + (string \<times> player) list" where
  "checkEach segs [] = Inr []"
| "checkEach segs (kp # rest) =
     (if \<not> alive (snd kp) then map_sum (map_prod id ((#) kp)) ((#) kp) (checkEach segs rest)
      else case collision segs (snd kp) of
        Inl e \<Rightarrow> Inl (e, kp # rest)
      | Inr c \<Rightarrow>
          map_sum (map_prod id ((#) (fst kp, if c then (snd kp)\<lparr>alive := False\<rparr> else snd kp)))
            ((#) (fst kp, if c then (snd kp)\<lparr>alive := False\<rparr> else snd kp))
            (checkEach segs rest))"

definition checkCollisions :: "gameState \<Rightarrow> (js_error \<times> gameState) + gameState" where
  "checkCollisions w =
     map_sum (map_prod id (\<lambda>ps. w\<lparr>players := ps\<rparr>)) (\<lambda>ps. w\<lparr>players := ps\<rparr>)
       (checkEach (allSegments (players w)) (players w))"

text \<open>
  What the loop body of \<open>checkEach\<close> makes of one player whose head exists: the same player,
  not alive any more when \<^verbatim>\<open>find\<close> finds a segment.
\<close>

definition afterCheck :: "segment list \<Rightarrow> string \<times> player \<Rightarrow> string \<times> player" where
  "afterCheck segs kp =
     (fst kp, if alive (snd kp) \<and> list_ex (hits (snd kp) (hd (snake (snd kp)))) segs
              then (snd kp)\<lparr>alive := False\<rparr> else snd kp)"

subsection \<open>\<^verbatim>\<open>updateGame\<close> and the timer callback\<close>

text \<open>The last statement of \<^verbatim>\<open>updateGame\<close>: new food when there is none, or on a draw below 0.02.\<close>

definition refreshFood :: "gameState \<Rightarrow> gameState" where
  "refreshFood w =
     (case food w of
        None \<Rightarrow> (case generateFood w of (f, r) \<Rightarrow> w\<lparr>food := Some f, rng := r\<rparr>)
      | Some _ \<Rightarrow>
          (case Math_random (rng w) of
             (u, r1) \<Rightarrow>
               if u < 2 / 100
               then (case generateFood (w\<lparr>rng := r1\<rparr>) of (f, r) \<Rightarrow> w\<lparr>food := Some f, rng := r\<rparr>)
               else w\<lparr>rng := r1\<rparr>))"

definition updateGame :: "gameState \<Rightarrow> (js_error \<times> gameState) + gameState" where
  "updateGame w =
     (case checkCollisions (movePlayers (commitDirections w)) of
        Inl ew \<Rightarrow> Inl ew
      | Inr w3 \<Rightarrow> Inr (refreshFood w3))"

text \<open>
  The callback that \<^verbatim>\<open>startGameLoop\<close> gives to \<^verbatim>\<open>setInterval\<close>: \<^verbatim>\<open>updateGame\<close>
  inside \<^verbatim>\<open>try\<close>; the \<^verbatim>\<open>catch\<close> logs and goes on with the state as the throw left it.
\<close>

definition tick :: "gameState \<Rightarrow> gameState" where
  "tick w = (case updateGame w of Inl ew \<Rightarrow> snd ew | Inr w' \<Rightarrow> w')"


section \<open>Connections\<close>

subsection \<open>The \<^verbatim>\<open>players\<close> object\<close>

text \<open>\<^verbatim>\<open>gameState.players[k]\<close>, and an assignment to fields of the player found there.\<close>

definition lookupPlayer :: "string \<Rightarrow> gameState \<Rightarrow> player option" where
  "lookupPlayer k w = map_of (players w) k"

definition updatePlayer :: "string \<Rightarrow> (player \<Rightarrow> player) \<Rightarrow> gameState \<Rightarrow> gameState" where
  "updatePlayer k f w =
     w\<lparr>players := map (\<lambda>kp. if fst kp = k then (fst kp, f (snd kp)) else kp) (players w)\<rparr>"

text \<open>
  The order of the keys of an object: the array indices (the decimal numerals below
  \<open>2^32 - 1\<close>, without leading zeros) in ascending order, then the other strings in the
  order of their creation. An id is up to nine characters of a base-36 numeral, so it can be
  an array index.
\<close>

definition isDigit :: "char \<Rightarrow> bool" where
  "isDigit c \<longleftrightarrow> (48 :: nat) \<le> of_char c \<and> (of_char c :: nat) \<le> 57"

definition indexValue :: "string \<Rightarrow> nat" where
  "indexValue k = foldl (\<lambda>n c. 10 * n + (of_char c - 48)) 0 k"

definition isArrayIndex :: "string \<Rightarrow> bool" where
  "isArrayIndex k \<longleftrightarrow>
     k \<noteq> [] \<and> list_all isDigit k \<and> (k = ''0'' \<or> hd k \<noteq> CHR ''0'') \<and> indexValue k < 4294967295"

definition keyBefore :: "string \<Rightarrow> string \<Rightarrow> bool" where
  "keyBefore k k' \<longleftrightarrow> isArrayIndex k \<and> (\<not> isArrayIndex k' \<or> indexValue k < indexValue k')"

fun insertNew :: "string \<Rightarrow> player \<Rightarrow> (string \<times> player) list \<Rightarrow> (string \<times> player) list" where
  "insertNew k p [] = [(k, p)]"
| "insertNew k p (kp # rest) =
     (if keyBefore k (fst kp) then (k, p) # kp # rest else kp # insertNew k p rest)"

text \<open>\<^verbatim>\<open>gameState.players[k] = p\<close>: a key that exists keeps its place.\<close>

definition assignPlayer :: "string \<Rightarrow> player \<Rightarrow> gameState \<Rightarrow> gameState" where
  "assignPlayer k p w =
     (if map_of (players w) k \<noteq> None
      then w\<lparr>players := map (\<lambda>kp. if fst kp = k then (k, p) else kp) (players w)\<rparr>
      else w\<lparr>players := insertNew k p (players w)\<rparr>)"

subsection \<open>A new connection\<close>

text \<open>\<^verbatim>\<open>xs[i]\<close> on an array of strings: \<^verbatim>\<open>undefined\<close> outside the array.\<close>

definition arrayGet :: "string list \<Rightarrow> int \<Rightarrow> jsval" where
  "arrayGet xs i = (if 0 \<le> i \<and> i < int (length xs) then JStr (xs ! nat i) else JUndefined)"

definition directions :: "string list" where
  "directions = [''up'', ''down'', ''left'', ''right'']"

definition colors :: "string list" where
  "colors = [''#FF6B6B'', ''#4ECDC4'', ''#45B7D1'', ''#FFBE0B'',
             ''#FB5607'', ''#8338EC'', ''#3A86FF'', ''#FF006E'']"

definition getRandomDirection :: "real stream \<Rightarrow> jsval \<times> real stream" where
  "getRandomDirection r =
     (case Math_random r of (u, r1) \<Rightarrow> (arrayGet directions \<lfloor>u * real (length directions)\<rfloor>, r1))"

definition getRandomColor :: "real stream \<Rightarrow> jsval \<times> real stream" where
  "getRandomColor r =
     (case Math_random r of (u, r1) \<Rightarrow> (arrayGet colors \<lfloor>u * real (length colors)\<rfloor>, r1))"

text \<open>The decimal numeral of a number, as the template string prints it.\<close>

fun decimal :: "nat \<Rightarrow> string" where
  "decimal n =
     (if n < 10 then [char_of (48 + n)] else decimal (n div 10) @ [char_of (48 + n mod 10)])"

declare decimal.simps [simp del]

text \<open>
  The \<^verbatim>\<open>connection\<close> handler, lines 53 to 83. \<^verbatim>\<open>generateId()\<close> reads one
  random number and prints it in base 36; the print is outside the model, so \<open>playerId\<close>,
  the string it returned, is given and the number is dropped from \<open>rng\<close>.
\<close>

definition onConnect :: "string \<Rightarrow> gameState \<Rightarrow> gameState" where
  "onConnect playerId w =
     (case Math_random (rng w) of
        (u, r0) \<Rightarrow>
          (case getRandomPosition r0 of
             (pos, r1) \<Rightarrow>
               (case getRandomDirection r1 of
                  (dir, r2) \<Rightarrow>
                    (case getRandomColor r2 of
                       (col, r3) \<Rightarrow>
                         (assignPlayer playerId
                            \<lparr>pid = playerId,
                             name = ''Player '' @ decimal (length (players w) + 1),
                             snake = [pos],
                             direction = dir,
                             pendingDirection = JNull,
                             score = 0,
                             color = col,
                             alive = True\<rparr>
                            w)
                         \<lparr>gameInterval := True, rng := r3\<rparr>))))"

subsection \<open>Messages\<close>

text \<open>\<^verbatim>\<open>data.name.substring(0, 15)\<close>: only a string has the method.\<close>

definition substring15 :: "jsval \<Rightarrow> js_error + string" where
  "substring15 v = (case v of JStr s \<Rightarrow> Inr (take 15 s) | _ \<Rightarrow> Inl TypeError)"

text \<open>The four conjuncts of lines 93 to 98.\<close>

definition notReversal :: "jsval \<Rightarrow> jsval \<Rightarrow> bool" where
  "notReversal currentDirection d \<longleftrightarrow>
     \<not> (currentDirection = JStr ''up'' \<and> d = JStr ''down'') \<and>
     \<not> (currentDirection = JStr ''down'' \<and> d = JStr ''up'') \<and>
     \<not> (currentDirection = JStr ''left'' \<and> d = JStr ''right'') \<and>
     \<not> (currentDirection = JStr ''right'' \<and> d = JStr ''left'')"

text \<open>
  The body of the \<^verbatim>\<open>try\<close> of the \<^verbatim>\<open>message\<close> handler, lines 88 to 105. The message
  is given by what \<^verbatim>\<open>JSON.parse\<close> makes of it: \<open>None\<close> when it throws a SyntaxError.
\<close>

definition messageBody :: "string \<Rightarrow> jsval option \<Rightarrow> gameState \<Rightarrow> js_error + gameState" where
  "messageBody playerId parsed w =
     (case parsed of
        None \<Rightarrow> Inl SyntaxError
      | Some data \<Rightarrow>
          (case getProp data ''type'' of
             Inl e \<Rightarrow> Inl e
           | Inr ty \<Rightarrow>
               (case lookupPlayer playerId w of
                  None \<Rightarrow> Inr w
                | Some player \<Rightarrow>
                    if ty = JStr ''directionChange'' then
                      (case getProp data ''direction'' of
                         Inl e \<Rightarrow> Inl e
                       | Inr d \<Rightarrow>
                           if notReversal (direction player) d
                           then Inr (updatePlayer playerId (\<lambda>p. p\<lparr>pendingDirection := d\<rparr>) w)
                           else Inr w)
                    else if ty = JStr ''setName'' then
                      (case getProp data ''name'' of
                         Inl e \<Rightarrow> Inl e
                       | Inr n \<Rightarrow>
                           (case substring15 n of
                              Inl e \<Rightarrow> Inl e
                            | Inr s \<Rightarrow> Inr (updatePlayer playerId (\<lambda>p. p\<lparr>name := s\<rparr>) w)))
                    else Inr w)))"

text \<open>The handler: \<^verbatim>\<open>catch (err)\<close> logs the error and returns.\<close>

definition onMessage :: "string \<Rightarrow> jsval option \<Rightarrow> gameState \<Rightarrow> js_error + gameState" where
  "onMessage playerId parsed w =
     (case messageBody playerId parsed w of Inl err \<Rightarrow> Inr w | Inr w' \<Rightarrow> Inr w')"

subsection \<open>The end of a connection\<close>

text \<open>The \<^verbatim>\<open>close\<close> handler, lines 112 to 122, with \<^verbatim>\<open>stopGameLoop\<close>.\<close>

definition onClose :: "string \<Rightarrow> gameState \<Rightarrow> gameState" where
  "onClose playerId w =
     (case lookupPlayer playerId w of
        None \<Rightarrow> w
      | Some _ \<Rightarrow>
          (let w1 = w\<lparr>players := filter (\<lambda>kp. fst kp \<noteq> playerId) (players w)\<rparr>
           in if length (players w1) = 0 then w1\<lparr>gameInterval := False\<rparr> else w1))"

section \<open>The view sent to clients\<close>

text \<open>
  The two object literals of \<^verbatim>\<open>getClientGameState\<close>: an entry with \<^verbatim>\<open>snake\<close>,
  \<^verbatim>\<open>color\<close> and \<^verbatim>\<open>alive\<close>, and the result with \<^verbatim>\<open>food\<close> and \<^verbatim>\<open>players\<close>,
  an object keyed by player id.
\<close>

record clientPlayer =
  c_snake :: "position list"
  c_color :: jsval
  c_alive :: bool

record clientGameState =
  c_food :: "position option"
  c_players :: "string \<rightharpoonup> clientPlayer"

text \<open>
  \<^verbatim>\<open>getClientGameState(excludePlayerId)\<close> (\<^verbatim>\<open>sanitizeGameState\<close> in server.js, the same
  text). The argument is \<open>None\<close> when the call gives none; a key is never
  \<^verbatim>\<open>undefined\<close>.
\<close>

definition getClientGameState :: "string option \<Rightarrow> gameState \<Rightarrow> clientGameState" where
  "getClientGameState excludePlayerId w =
     \<lparr>c_food = food w,
      c_players =
        foldl (\<lambda>acc kp.
            if Some (fst kp) \<noteq> excludePlayerId
            then acc(fst kp \<mapsto>
              \<lparr>c_snake = snake (snd kp), c_color = color (snd kp), c_alive = alive (snd kp)\<rparr>)
            else acc)
          Map.empty (players w)\<rparr>"

text \<open>The object the snapshot holds for a player, and the loop body of the \<^verbatim>\<open>reduce\<close>.\<close>

definition clientView :: "player \<Rightarrow> clientPlayer" where
  "clientView p = \<lparr>c_snake = snake p, c_color = color p, c_alive = alive p\<rparr>"

definition snapshotStep ::
    "string option \<Rightarrow> (string \<rightharpoonup> clientPlayer) \<Rightarrow> string \<times> clientPlayer \<Rightarrow> (string \<rightharpoonup> clientPlayer)" where
  "snapshotStep excludePlayerId acc kv =
     (if Some (fst kv) \<noteq> excludePlayerId then acc(fst kv \<mapsto> snd kv) else acc)"

section \<open>The message handler of \<^verbatim>\<open>server.js\<close>\<close>

text \<open>
  Lines 68 to 78 of \<^verbatim>\<open>server.js\<close>: no \<^verbatim>\<open>try\<close>, no test of the direction, two
  \<^verbatim>\<open>if\<close>s in a row. The field \<^verbatim>\<open>nextDirection\<close> of that revision is
  \<open>pendingDirection\<close> here.
\<close>

definition srv_onMessage :: "string \<Rightarrow> jsval option \<Rightarrow> gameState \<Rightarrow> js_error + gameState" where
  "srv_onMessage playerId parsed w =
     (case parsed of
        None \<Rightarrow> Inl SyntaxError
      | Some data \<Rightarrow>
          (case getProp data ''type'' of
             Inl e \<Rightarrow> Inl e
           | Inr ty \<Rightarrow>
               (case (if ty = JStr ''directionChange'' \<and> lookupPlayer playerId w \<noteq> None
                      then (case getProp data ''direction'' of
                              Inl e \<Rightarrow> Inl e
                            | Inr d \<Rightarrow> Inr (updatePlayer playerId (\<lambda>p. p\<lparr>pendingDirection := d\<rparr>) w))
                      else Inr w) of
                  Inl e \<Rightarrow> Inl e
                | Inr w1 \<Rightarrow>
                    if ty = JStr ''setName'' \<and> lookupPlayer playerId w1 \<noteq> None
                    then (case getProp data ''name'' of
                            Inl e \<Rightarrow> Inl e
                          | Inr n \<Rightarrow>
                              (case substring15 n of
                                 Inl e \<Rightarrow> Inl e
                               | Inr s \<Rightarrow> Inr (updatePlayer playerId (\<lambda>p. p\<lparr>name := s\<rparr>) w1)))
                    else Inr w1)))"

section \<open>Collision resolution in \<^verbatim>\<open>server.js\<close>\<close>

text \<open>
  Lines 154 to 180 of \<^verbatim>\<open>server.js\<close>. The loop differs from the newest revision in one
  statement: the segments of a player it marks dead are pushed onto \<^verbatim>\<open>allSegments\<close> once
  more, as objects with \<^verbatim>\<open>isDead\<close> and without \<^verbatim>\<open>playerId\<close> and \<^verbatim>\<open>isHead\<close>.
  So a segment of that revision has an optional \<^verbatim>\<open>playerId\<close> and \<^verbatim>\<open>isHead\<close>;
  \<^verbatim>\<open>undefined !== player.id\<close> is true and \<^verbatim>\<open>undefined === false\<close> is false.
\<close>

record srv_segment =
  ss_x :: int
  ss_y :: int
  ss_playerId :: "string option"
  ss_isHead :: "bool option"

definition srv_live :: "segment \<Rightarrow> srv_segment" where
  "srv_live s =
     \<lparr>ss_x = seg_x s, ss_y = seg_y s, ss_playerId = Some (seg_playerId s),
      ss_isHead = Some (seg_isHead s)\<rparr>"

definition srv_dead :: "position \<Rightarrow> srv_segment" where
  "srv_dead s = \<lparr>ss_x = fst s, ss_y = snd s, ss_playerId = None, ss_isHead = None\<rparr>"

definition srv_allSegments :: "(string \<times> player) list \<Rightarrow> srv_segment list" where
  "srv_allSegments ps = map srv_live (allSegments ps)"

definition srv_hits :: "player \<Rightarrow> position \<Rightarrow> srv_segment \<Rightarrow> bool" where
  "srv_hits p head s \<longleftrightarrow>
     ss_x s = fst head \<and> ss_y s = snd head \<and>
     (ss_playerId s \<noteq> Some (pid p) \<or> ss_isHead s = Some False)"

definition srv_collision :: "srv_segment list \<Rightarrow> player \<Rightarrow> js_error + bool" where
  "srv_collision segs p =
     (case snake p of
        [] \<Rightarrow> if segs = [] then Inr False else Inl TypeError
      | head # _ \<Rightarrow> Inr (list_ex (srv_hits p head) segs))"

fun srv_checkEach ::
    "srv_segment list \<Rightarrow> (string \<times> player) list \<Rightarrow>
      (js_error \<times> (string \<times> player) list) + (string \<times> player) list" where
  "srv_checkEach segs [] = Inr []"
| "srv_checkEach segs (kp # rest) =
     (if \<not> alive (snd kp) then map_sum (map_prod id ((#) kp)) ((#) kp) (srv_checkEach segs rest)
      else case srv_collision segs (snd kp) of
        Inl e \<Rightarrow> Inl (e, kp # rest)
      | Inr c \<Rightarrow>
          if c
          then map_sum (map_prod id ((#) (fst kp, (snd kp)\<lparr>alive := False\<rparr>)))
                 ((#) (fst kp, (snd kp)\<lparr>alive := False\<rparr>))
                 (srv_checkEach (segs @ map srv_dead (snake (snd kp))) rest)
          else map_sum (map_prod id ((#) kp)) ((#) kp) (srv_checkEach segs rest))"

definition srv_checkCollisions :: "gameState \<Rightarrow> (js_error \<times> gameState) + gameState" where
  "srv_checkCollisions w =
     map_sum (map_prod id (\<lambda>ps. w\<lparr>players := ps\<rparr>)) (\<lambda>ps. w\<lparr>players := ps\<rparr>)
       (srv_checkEach (srv_allSegments (players w)) (players w))"

section \<open>The food generator of \<^verbatim>\<open>server.js\<close>\<close>

text \<open>
  Lines 231 to 239 of \<^verbatim>\<open>server.js\<close>: the same test in a \<^verbatim>\<open>do ... while\<close> with no
  counter. \<open>None\<close> is a loop that does not end.
\<close>

partial_function (option) srv_generateFood_loop ::
    "(string \<times> player) list \<Rightarrow> real stream \<Rightarrow> (position \<times> real stream) option" where
  "srv_generateFood_loop ps r =
     (case getRandomPosition r of
        (f, r') \<Rightarrow> if positionOccupied ps f then srv_generateFood_loop ps r' else Some (f, r'))"

definition srv_generateFood :: "gameState \<Rightarrow> (position \<times> real stream) option" where
  "srv_generateFood w = srv_generateFood_loop (players w) (rng w)"

section \<open>The states of the server\<close>

text \<open>
  The \<^verbatim>\<open>gameState\<close> of lines 14 to 19, and the states the four event handlers make of
  it: a connection, a message on a connection, the end of a connection, and the timer, which
  runs only while \<open>gameInterval\<close> is set.
\<close>

definition initialState :: "real stream \<Rightarrow> gameState" where
  "initialState r = \<lparr>players = [], food = None, gameInterval = False, rng = r\<rparr>"

inductive reachable :: "gameState \<Rightarrow> bool" where
  start: "reachable (initialState r)"
| connect: "reachable w \<Longrightarrow> reachable (onConnect playerId w)"
| message: "reachable w \<Longrightarrow> onMessage playerId parsed w = Inr w' \<Longrightarrow> reachable w'"
| close: "reachable w \<Longrightarrow> reachable (onClose playerId w)"
| timer: "reachable w \<Longrightarrow> gameInterval w \<Longrightarrow> reachable (tick w)"

text \<open>
  What holds of every player the server ever holds (\<open>reachable_playerOk\<close>): the \<^verbatim>\<open>id\<close>
  field is the key, the snake has a segment, and the pending direction is not the reverse of
  the direction.
\<close>

definition playerOk :: "string \<times> player \<Rightarrow> bool" where
  "playerOk kp \<longleftrightarrow>
     pid (snd kp) = fst kp \<and> snake (snd kp) \<noteq> [] \<and>
     notReversal (direction (snd kp)) (pendingDirection (snd kp))"

section \<open>The oldest revision: \<^verbatim>\<open>moveSnake\<close>\<close>

text \<open>
  Lines 120 to 134 of \<^verbatim>\<open>moveSnake\<close> in \<^verbatim>\<open>part_000\<close>: the same
  \<^verbatim>\<open>switch\<close>, then the four \<^verbatim>\<open>if\<close>s that wrap at \<^verbatim>\<open>gameState.gridSize\<close>
  (20 in that revision).
\<close>

definition moveSnake_head :: "int \<Rightarrow> jsval \<Rightarrow> position \<Rightarrow> position" where
  "moveSnake_head gridSize d h =
     (let x0 = fst (shiftHead d h);
          y0 = snd (shiftHead d h);
          x1 = (if gridSize \<le> x0 then 0 else x0);
          x2 = (if x1 < 0 then gridSize - 1 else x1);
          y1 = (if gridSize \<le> y0 then 0 else y0);
          y2 = (if y1 < 0 then gridSize - 1 else y1)
      in (x2, y2))"

section \<open>Example states\<close>

definition snakePlayer :: "string \<Rightarrow> position list \<Rightarrow> string \<Rightarrow> player" where
  "snakePlayer k s d =
     \<lparr>pid = k, name = ''Player 1'', snake = s, direction = JStr d, pendingDirection = JNull,
      score = 0, color = JStr ''#FF6B6B'', alive = True\<rparr>"

definition edgeWorld :: gameState where
  "edgeWorld =
     \<lparr>players = [(''k3x9'', snakePlayer ''k3x9'' [(24, 7), (23, 7)] ''right'')],
      food = Some (3, 3), gameInterval = True, rng = sconst (1 / 2)\<rparr>"

definition crashWorld :: gameState where
  "crashWorld =
     \<lparr>players = [(''a7'', snakePlayer ''a7'' [(5, 5), (4, 5)] ''right''),
                 (''b2'', snakePlayer ''b2'' [(5, 4), (5, 5)] ''up'')],
      food = Some (3, 3), gameInterval = True, rng = sconst (1 / 2)\<rparr>"

definition loneWorld :: gameState where
  "loneWorld =
     \<lparr>players = [(''a7'', snakePlayer ''a7'' [(5, 5)] ''right'')],
      food = Some (6, 5), gameInterval = True, rng = sconst (1 / 2)\<rparr>"

definition frozenWorld :: gameState where
  "frozenWorld =
     \<lparr>players = [(''a7'', (snakePlayer ''a7'' [(5, 5), (4, 5)] ''right'')
                           \<lparr>pendingDirection := JStr ''up'', score := 3, alive := False\<rparr>),
                 (''b2'', snakePlayer ''b2'' [(5, 4), (5, 5)] ''up'')],
      food = Some (3, 3), gameInterval = True, rng = sconst (1 / 2)\<rparr>"

definition upWorld :: gameState where
  "upWorld =
     \<lparr>players = [(''a7'', snakePlayer ''a7'' [(5, 5), (5, 6)] ''up'')],
      food = Some (3, 3), gameInterval = True, rng = sconst (1 / 2)\<rparr>"

definition reverseWorld :: gameState where
  "reverseWorld =
     \<lparr>players = [(''a7'', (snakePlayer ''a7'' [(5, 5), (5, 6)] ''up'')
                           \<lparr>pendingDirection := JStr ''down''\<rparr>)],
      food = Some (3, 3), gameInterval = True, rng = sconst (1 / 2)\<rparr>"

definition turnDown :: jsval where
  "turnDown = JObj [(''type'', JStr ''directionChange''), (''direction'', JStr ''down'')]"

definition blockedWorld :: gameState where
  "blockedWorld =
     \<lparr>players = [(''a7'', snakePlayer ''a7'' [(12, 12), (11, 12)] ''right'')],
      food = None, gameInterval = True, rng = sconst (1 / 2)\<rparr>"

definition pingMessage :: jsval where
  "pingMessage = JObj [(''type'', JStr ''ping''), (''direction'', JStr ''left'')]"

definition joinedWorld :: gameState where
  "joinedWorld = onConnect ''a7'' (initialState (sconst (1 / 2)))"

definition turnRight :: jsval where
  "turnRight = JObj [(''type'', JStr ''directionChange''), (''direction'', JStr ''right'')]"

definition turnUp :: jsval where
  "turnUp = JObj [(''type'', JStr ''directionChange''), (''direction'', JStr ''up'')]"

definition turnedWorld :: gameState where
  "turnedWorld = updatePlayer ''a7'' (\<lambda>p. p\<lparr>pendingDirection := JStr ''up''\<rparr>) joinedWorld"

section \<open>Properties of movement\<close>

lemma js_rem_grid:
  assumes "- GRID_SIZE \<le> a"
  shows "js_rem (a + GRID_SIZE) GRID_SIZE = a mod GRID_SIZE"
proof (cases "a = - GRID_SIZE")
  case True
  then show ?thesis by (simp add: js_rem_def)
next
  case False
  with assms have "0 < a + GRID_SIZE" by simp
  then have "js_rem (a + GRID_SIZE) GRID_SIZE = (a + GRID_SIZE) mod GRID_SIZE"
    by (simp add: js_rem_def GRID_SIZE_def)
  then show ?thesis by simp
qed

lemma newHead_mod:
  "- GRID_SIZE < fst h \<Longrightarrow> - GRID_SIZE < snd h \<Longrightarrow>
   newHead d h = (fst (shiftHead d h) mod GRID_SIZE, snd (shiftHead d h) mod GRID_SIZE)"
  by (auto simp add: newHead_def wrapHead_def shiftHead_def js_rem_grid)

lemma length_setPlayer [simp]: "length (players (setPlayer i p w)) = length (players w)"
  by (simp add: setPlayer_def)

lemma snd_setPlayer_same [simp]:
  "i < length (players w) \<Longrightarrow> snd (players (setPlayer i p w) ! i) = p"
  by (simp add: setPlayer_def)

lemma movePlayer_snake:
  assumes "i < length (players w)" "alive (snd (players w ! i))"
    and "snake (snd (players w ! i)) = h # t"
  shows "snake (snd (players (movePlayer i w) ! i)) =
     (if food w = Some (newHead (direction (snd (players w ! i))) h)
      then newHead (direction (snd (players w ! i))) h # h # t
      else newHead (direction (snd (players w ! i))) h # butlast (h # t))"
  using assms by (simp add: movePlayer_def Let_def split: prod.splits)

lemma moveSnake_head_mod:
  assumes "0 \<le> fst h" "fst h < g" "0 \<le> snd h" "snd h < g"
  shows "moveSnake_head g d h = (fst (shiftHead d h) mod g, snd (shiftHead d h) mod g)"
proof -
  have m: "(if (if g \<le> a then 0 else a) < 0 then g - 1 else (if g \<le> a then 0 else a)) = a mod g"
    if "- 1 \<le> a" "a \<le> g" for a
  proof (cases "a = - 1")
    case True
    have "(- 1) mod g = g - 1" using assms by (simp add: zmod_minus1)
    with True assms show ?thesis by simp
  next
    case False
    with that have "0 \<le> a" by simp
    then show ?thesis using that by (cases "a = g") simp_all
  qed
  have "- 1 \<le> fst (shiftHead d h) \<and> fst (shiftHead d h) \<le> g"
    and "- 1 \<le> snd (shiftHead d h) \<and> snd (shiftHead d h) \<le> g"
    using assms by (auto simp add: shiftHead_def)
  then show ?thesis by (simp add: moveSnake_head_def Let_def m)
qed

text \<open>
  Heads are on the grid when they are created and stay there: the hypothesis of the next
  theorem holds of every snake the server makes.
\<close>

lemma getRandomPosition_onGrid:
  assumes "0 \<le> shd r" "shd r < 1" "0 \<le> shd (stl r)" "shd (stl r) < 1"
  shows "onGrid (fst (getRandomPosition r))"
proof -
  have "0 \<le> \<lfloor>u * 25\<rfloor> \<and> \<lfloor>u * 25\<rfloor> < 25" if "0 \<le> u" "u < 1" for u :: real
  proof -
    have "0 \<le> u * 25" and "u * 25 < 25" using that by simp_all
    then show ?thesis by (simp add: floor_less_iff)
  qed
  then show ?thesis
    using assms by (simp add: onGrid_def getRandomPosition_def Math_random_def GRID_SIZE_def)
qed

lemma newHead_onGrid: "onGrid h \<Longrightarrow> onGrid (newHead d h)"
proof -
  assume h: "onGrid h"
  then have "- GRID_SIZE < fst h" and "- GRID_SIZE < snd h"
    by (simp_all add: onGrid_def GRID_SIZE_def)
  then have "newHead d h = (fst (shiftHead d h) mod GRID_SIZE, snd (shiftHead d h) mod GRID_SIZE)"
    by (rule newHead_mod)
  then show ?thesis by (simp add: onGrid_def GRID_SIZE_def)
qed

text \<open>
  C4. For an alive player whose head \<open>(x, y)\<close> lies on the grid, \<open>movePlayer\<close> makes the
  head of the snake the old head shifted by the \<open>switch\<close> on the player's direction, both
  coordinates taken modulo \<open>GRID_SIZE\<close>: one cell up, down, left or right for the four
  headings. At the edges: from \<open>x = GRID_SIZE - 1\<close> moving right the head is at \<open>x = 0\<close>,
  from \<open>x = 0\<close> moving left at \<open>x = GRID_SIZE - 1\<close>, and the same for \<open>y\<close> with down and
  up. (The head computation of \<^verbatim>\<open>server.js\<close> is the same text; for \<^verbatim>\<open>moveSnake\<close> of
  the oldest revision see \<open>moveSnake_head_mod\<close>.)
\<close>

theorem movePlayer_head_toroidal:
  assumes "i < length (players w)"
    and "alive (snd (players w ! i))"
    and "snake (snd (players w ! i)) = (x, y) # t"
    and "0 \<le> x" and "x < GRID_SIZE" and "0 \<le> y" and "y < GRID_SIZE"
    and "d = direction (snd (players w ! i))"
    and "h' = hd (snake (snd (players (movePlayer i w) ! i)))"
  shows "h' = (fst (shiftHead d (x, y)) mod GRID_SIZE, snd (shiftHead d (x, y)) mod GRID_SIZE)
    \<and> (d = JStr ''up'' \<longrightarrow> h' = (x, (y - 1) mod GRID_SIZE))
    \<and> (d = JStr ''down'' \<longrightarrow> h' = (x, (y + 1) mod GRID_SIZE))
    \<and> (d = JStr ''left'' \<longrightarrow> h' = ((x - 1) mod GRID_SIZE, y))
    \<and> (d = JStr ''right'' \<longrightarrow> h' = ((x + 1) mod GRID_SIZE, y))
    \<and> (d = JStr ''right'' \<and> x = GRID_SIZE - 1 \<longrightarrow> h' = (0, y))
    \<and> (d = JStr ''left'' \<and> x = 0 \<longrightarrow> h' = (GRID_SIZE - 1, y))
    \<and> (d = JStr ''down'' \<and> y = GRID_SIZE - 1 \<longrightarrow> h' = (x, 0))
    \<and> (d = JStr ''up'' \<and> y = 0 \<longrightarrow> h' = (x, GRID_SIZE - 1))"
proof -
  have "h' = newHead d (x, y)"
    using assms(1,2,3,8,9) by (simp add: movePlayer_snake)
  moreover have "- GRID_SIZE < x" and "- GRID_SIZE < y"
    using assms(4,6) by (simp_all add: GRID_SIZE_def)
  ultimately have h: "h' = (fst (shiftHead d (x, y)) mod GRID_SIZE, snd (shiftHead d (x, y)) mod GRID_SIZE)"
    by (simp add: newHead_mod)
  have xm: "x mod GRID_SIZE = x" and ym: "y mod GRID_SIZE = y"
    using assms(4,5,6,7) by simp_all
  show ?thesis
    using h xm ym by (simp add: shiftHead_def GRID_SIZE_def)
qed

lemma edgeWorld_player:
  "players edgeWorld ! 0 = (''k3x9'', snakePlayer ''k3x9'' [(24, 7), (23, 7)] ''right'')"
  "length (players edgeWorld) = 1"
  by (simp_all add: edgeWorld_def)

theorem movePlayer_head_toroidal_witness:
  "alive (snd (players edgeWorld ! 0))
   \<and> snake (snd (players edgeWorld ! 0)) = [(GRID_SIZE - 1, 7), (23, 7)]
   \<and> direction (snd (players edgeWorld ! 0)) = JStr ''right''
   \<and> hd (snake (snd (players (movePlayer 0 edgeWorld) ! 0))) = (0, 7)"
proof -
  have "hd (snake (snd (players (movePlayer 0 edgeWorld) ! 0))) =
      (fst (shiftHead (JStr ''right'') (24, 7)) mod GRID_SIZE,
       snd (shiftHead (JStr ''right'') (24, 7)) mod GRID_SIZE)"
    by (rule movePlayer_head_toroidal
          [of 0 edgeWorld 24 7 "[(23, 7)]" "JStr ''right''", THEN conjunct1])
      (simp_all add: edgeWorld_player snakePlayer_def GRID_SIZE_def)
  then show ?thesis
    by (simp add: edgeWorld_player snakePlayer_def shiftHead_def GRID_SIZE_def)
qed

section \<open>Frame lemmas for the movement loop\<close>

lemma players_setPlayer_other:
  "j \<noteq> i \<Longrightarrow> players (setPlayer i p w) ! j = players w ! j"
  by (simp add: setPlayer_def)

lemma fst_setPlayer [simp]:
  "map fst (players (setPlayer i p w)) = map fst (players w)"
proof -
  have "(map fst (players w))[i := fst (players w ! i)] = map fst (players w)"
  proof (cases "i < length (players w)")
    case True
    then show ?thesis
      by (intro nth_equalityI) (simp_all add: nth_list_update)
  next
    case False
    then have "length (map fst (players w)) \<le> i" by simp
    then show ?thesis by (rule list_update_beyond)
  qed
  then show ?thesis by (simp add: setPlayer_def map_update)
qed

lemma movePlayer_length [simp]: "length (players (movePlayer i w)) = length (players w)"
  by (simp add: movePlayer_def Let_def split: list.splits prod.splits)

lemma movePlayer_keys [simp]: "map fst (players (movePlayer i w)) = map fst (players w)"
  by (simp add: movePlayer_def Let_def split: list.splits prod.splits)

lemma movePlayer_other:
  "j \<noteq> i \<Longrightarrow> players (movePlayer i w) ! j = players w ! j"
  by (simp add: movePlayer_def Let_def players_setPlayer_other split: list.splits prod.splits)

lemma movePlayer_dead:
  "\<not> alive (snd (players w ! i)) \<Longrightarrow> movePlayer i w = w"
  by (simp add: movePlayer_def)

lemma movePlayer_player:
  assumes "i < length (players w)" and "alive (snd (players w ! i))"
    and "snake (snd (players w ! i)) = h # t"
  shows "snd (players (movePlayer i w) ! i) =
     (if food w = Some (newHead (direction (snd (players w ! i))) h)
      then (snd (players w ! i))
        \<lparr>snake := newHead (direction (snd (players w ! i))) h # h # t,
         score := score (snd (players w ! i)) + FOOD_SCORE\<rparr>
      else (snd (players w ! i))
        \<lparr>snake := newHead (direction (snd (players w ! i))) h # butlast (h # t)\<rparr>)"
  using assms by (simp add: movePlayer_def Let_def split: prod.splits)

lemma movePlayer_empty:
  "snake (snd (players w ! i)) = [] \<Longrightarrow> movePlayer i w = w"
  by (simp add: movePlayer_def Let_def)

lemma movePlayersUpTo_Suc:
  "movePlayersUpTo (Suc n) w = movePlayer n (movePlayersUpTo n w)"
  by (simp add: movePlayersUpTo_def)

lemma movePlayersUpTo_0 [simp]: "movePlayersUpTo 0 w = w"
  by (simp add: movePlayersUpTo_def)

lemma movePlayersUpTo_length [simp]:
  "length (players (movePlayersUpTo n w)) = length (players w)"
  by (induction n) (simp_all add: movePlayersUpTo_Suc)

lemma movePlayersUpTo_keys [simp]:
  "map fst (players (movePlayersUpTo n w)) = map fst (players w)"
  by (induction n) (simp_all add: movePlayersUpTo_Suc)

lemma movePlayersUpTo_later:
  "n \<le> i \<Longrightarrow> players (movePlayersUpTo n w) ! i = players w ! i"
  by (induction n) (simp_all add: movePlayersUpTo_Suc movePlayer_other)

lemma movePlayersUpTo_earlier:
  "i < n \<Longrightarrow> players (movePlayersUpTo n w) ! i = players (movePlayer i (movePlayersUpTo i w)) ! i"
proof (induction n)
  case 0
  then show ?case by simp
next
  case (Suc n)
  show ?case
  proof (cases "i = n")
    case True
    then show ?thesis by (simp add: movePlayersUpTo_Suc)
  next
    case False
    with Suc have "i < n" by simp
    with Suc.IH False show ?thesis
      by (simp add: movePlayersUpTo_Suc movePlayer_other)
  qed
qed

lemma movePlayers_player:
  "i < length (players w) \<Longrightarrow>
   players (movePlayers w) ! i = players (movePlayer i (movePlayersUpTo i w)) ! i"
  by (simp add: movePlayers_def movePlayersUpTo_earlier)

lemma commitDirections_length [simp]:
  "length (players (commitDirections w)) = length (players w)"
  by (simp add: commitDirections_def)

lemma commitDirections_player:
  "i < length (players w) \<Longrightarrow>
   players (commitDirections w) ! i = (fst (players w ! i), commitDirection (snd (players w ! i)))"
  by (simp add: commitDirections_def)

lemma commitDirections_food [simp]: "food (commitDirections w) = food w"
  by (simp add: commitDirections_def)

section \<open>Collision resolution\<close>

lemma snakeSegments_nth:
  "snakeSegments p =
     map (\<lambda>l. \<lparr>seg_x = fst (snake p ! l), seg_y = snd (snake p ! l),
        seg_playerId = pid p, seg_isHead = (l = 0)\<rparr>) [0..<length (snake p)]"
  by (rule nth_equalityI) (simp_all add: snakeSegments_def nth_enumerate_eq)

lemma snakeSegments_set:
  "s \<in> set (snakeSegments p) \<longleftrightarrow>
     (\<exists>l < length (snake p). s = \<lparr>seg_x = fst (snake p ! l), seg_y = snd (snake p ! l),
        seg_playerId = pid p, seg_isHead = (l = 0)\<rparr>)"
  by (auto simp add: snakeSegments_nth)

lemma allSegments_set:
  "s \<in> set (allSegments ps) \<longleftrightarrow>
     (\<exists>j < length ps. alive (snd (ps ! j)) \<and> s \<in> set (snakeSegments (snd (ps ! j))))"
proof -
  have "s \<in> set (allSegments ps) \<longleftrightarrow>
      (\<exists>kp \<in> set ps. alive (snd kp) \<and> s \<in> set (snakeSegments (snd kp)))"
    by (auto simp add: allSegments_def split: if_splits)
  also have "\<dots> \<longleftrightarrow>
      (\<exists>j < length ps. alive (snd (ps ! j)) \<and> s \<in> set (snakeSegments (snd (ps ! j))))"
    by (metis in_set_conv_nth)
  finally show ?thesis .
qed

lemma hits_allSegments:
  "list_ex (hits p head) (allSegments ps) \<longleftrightarrow>
     (\<exists>j l. j < length ps \<and> alive (snd (ps ! j)) \<and> l < length (snake (snd (ps ! j)))
        \<and> snake (snd (ps ! j)) ! l = head \<and> (pid (snd (ps ! j)) \<noteq> pid p \<or> l \<noteq> 0))"
  (is "?L \<longleftrightarrow> ?R")
proof
  assume ?L
  then obtain s where s: "s \<in> set (allSegments ps)" and h: "hits p head s"
    by (auto simp add: list_ex_iff)
  from s obtain j l where j: "j < length ps" "alive (snd (ps ! j))"
    and l: "l < length (snake (snd (ps ! j)))"
    and se: "s = \<lparr>seg_x = fst (snake (snd (ps ! j)) ! l), seg_y = snd (snake (snd (ps ! j)) ! l),
        seg_playerId = pid (snd (ps ! j)), seg_isHead = (l = 0)\<rparr>"
    by (auto simp add: allSegments_set snakeSegments_set)
  from h se have "snake (snd (ps ! j)) ! l = head" and "pid (snd (ps ! j)) \<noteq> pid p \<or> l \<noteq> 0"
    by (auto simp add: hits_def prod_eq_iff)
  with j l show ?R by blast
next
  assume ?R
  then obtain j l where j: "j < length ps" "alive (snd (ps ! j))"
    and l: "l < length (snake (snd (ps ! j)))"
    and e: "snake (snd (ps ! j)) ! l = head"
    and o: "pid (snd (ps ! j)) \<noteq> pid p \<or> l \<noteq> 0"
    by blast
  let ?s = "\<lparr>seg_x = fst (snake (snd (ps ! j)) ! l), seg_y = snd (snake (snd (ps ! j)) ! l),
        seg_playerId = pid (snd (ps ! j)), seg_isHead = (l = 0)\<rparr>"
  have "?s \<in> set (allSegments ps)"
    using j l by (auto simp add: allSegments_set snakeSegments_set)
  moreover have "hits p head ?s"
    using e o by (auto simp add: hits_def)
  ultimately show ?L by (auto simp add: list_ex_iff)
qed

lemma checkEach_returns:
  "(\<And>kp. kp \<in> set ps \<Longrightarrow> alive (snd kp) \<Longrightarrow> snake (snd kp) \<noteq> []) \<Longrightarrow>
   checkEach segs ps = Inr (map (afterCheck segs) ps)"
proof (induction ps)
  case Nil
  then show ?case by simp
next
  case (Cons kp rest)
  then have IH: "checkEach segs rest = Inr (map (afterCheck segs) rest)" by simp
  show ?case
  proof (cases "alive (snd kp)")
    case False
    then show ?thesis by (simp add: IH afterCheck_def)
  next
    case True
    with Cons.prems have "snake (snd kp) \<noteq> []" by simp
    then obtain h t where "snake (snd kp) = h # t" by (cases "snake (snd kp)") auto
    with True show ?thesis by (simp add: IH afterCheck_def collision_def)
  qed
qed

text \<open>Whatever \<open>checkEach\<close> returns or throws: the keys stay, a player changes at most in \<open>alive\<close>.\<close>

lemma checkEach_frame:
  "list_all2 (\<lambda>kp kp'. fst kp' = fst kp \<and> (snd kp' = snd kp \<or> snd kp' = (snd kp)\<lparr>alive := False\<rparr>))
     ps (case_sum snd id (checkEach segs ps))"
proof (induction ps)
  case Nil
  then show ?case by simp
next
  case (Cons kp rest)
  show ?case
  proof (cases "checkEach segs rest")
    case (Inl a)
    with Cons show ?thesis
      by (cases a) (auto simp add: list_all2_refl split: sum.splits)
  next
    case (Inr b)
    with Cons show ?thesis
      by (auto simp add: list_all2_refl split: sum.splits)
  qed
qed

lemma checkCollisions_returns:
  assumes "\<forall>kp \<in> set (players w). alive (snd kp) \<longrightarrow> snake (snd kp) \<noteq> []"
  shows "checkCollisions w = Inr (w\<lparr>players := map (afterCheck (allSegments (players w))) (players w)\<rparr>)"
  using assms by (simp add: checkCollisions_def checkEach_returns)

lemma distinct_pid_nth:
  assumes "distinct (map (\<lambda>kp. pid (snd kp)) ps)" "i < length ps" "j < length ps"
  shows "pid (snd (ps ! j)) = pid (snd (ps ! i)) \<longleftrightarrow> j = i"
  using assms by (auto simp add: distinct_conv_nth)

text \<open>
  C1. Let every snake have a segment and the ids of the players differ. For a player \<open>i\<close>
  that is alive when \<open>checkCollisions\<close> starts, the function returns, and the player is
  dead afterwards if and only if some segment \<open>l\<close> of some snake \<open>j\<close> that was alive at that
  moment lies on the cell of the player's head and is not that head itself, that is
  \<open>(j, l) \<noteq> (i, 0)\<close>. So the player's own head never counts, every other segment of an
  alive snake does (also a later segment of the player's own snake), and the segments of
  snakes that were not alive do not count. In a tick the function runs on the state the
  movement loop leaves (\<open>tick_after_moves\<close>). (On such states \<^verbatim>\<open>checkCollisions\<close> of
  \<^verbatim>\<open>server.js\<close> is the same function: \<open>srv_checkCollisions_eq\<close>.)
\<close>

theorem checkCollisions_dead_iff:
  assumes "distinct (map (\<lambda>kp. pid (snd kp)) (players w))"
    and "\<forall>kp \<in> set (players w). snake (snd kp) \<noteq> []"
    and "i < length (players w)"
    and "alive (snd (players w ! i))"
  shows "\<exists>w'. checkCollisions w = Inr w' \<and> length (players w') = length (players w) \<and>
     (\<not> alive (snd (players w' ! i)) \<longleftrightarrow>
        (\<exists>j l. j < length (players w) \<and> alive (snd (players w ! j))
           \<and> l < length (snake (snd (players w ! j)))
           \<and> snake (snd (players w ! j)) ! l = hd (snake (snd (players w ! i)))
           \<and> (j, l) \<noteq> (i, 0)))"
proof -
  let ?ps = "players w"
  let ?w' = "w\<lparr>players := map (afterCheck (allSegments ?ps)) ?ps\<rparr>"
  have r: "checkCollisions w = Inr ?w'"
    using assms(2) by (simp add: checkCollisions_returns)
  have "\<not> alive (snd (players ?w' ! i)) \<longleftrightarrow>
      list_ex (hits (snd (?ps ! i)) (hd (snake (snd (?ps ! i))))) (allSegments ?ps)"
    using assms(3,4) by (simp add: afterCheck_def)
  also have "\<dots> \<longleftrightarrow>
      (\<exists>j l. j < length ?ps \<and> alive (snd (?ps ! j)) \<and> l < length (snake (snd (?ps ! j)))
        \<and> snake (snd (?ps ! j)) ! l = hd (snake (snd (?ps ! i)))
        \<and> (pid (snd (?ps ! j)) \<noteq> pid (snd (?ps ! i)) \<or> l \<noteq> 0))"
    by (rule hits_allSegments)
  also have "\<dots> \<longleftrightarrow>
      (\<exists>j l. j < length ?ps \<and> alive (snd (?ps ! j)) \<and> l < length (snake (snd (?ps ! j)))
        \<and> snake (snd (?ps ! j)) ! l = hd (snake (snd (?ps ! i)))
        \<and> (j, l) \<noteq> (i, 0))"
    using distinct_pid_nth [OF assms(1) assms(3)] by auto
  finally show ?thesis using r by simp
qed

lemma crashWorld_wf:
  "distinct (map (\<lambda>kp. pid (snd kp)) (players crashWorld))"
  "\<forall>kp \<in> set (players crashWorld). snake (snd kp) \<noteq> []"
  "0 < length (players crashWorld)"
  "alive (snd (players crashWorld ! 0))"
  by (simp_all add: crashWorld_def snakePlayer_def)

lemma loneWorld_wf:
  "distinct (map (\<lambda>kp. pid (snd kp)) (players loneWorld))"
  "\<forall>kp \<in> set (players loneWorld). snake (snd kp) \<noteq> []"
  "0 < length (players loneWorld)"
  "alive (snd (players loneWorld ! 0))"
  by (simp_all add: loneWorld_def snakePlayer_def)

theorem checkCollisions_dead_iff_witness:
  "(\<exists>w'. checkCollisions crashWorld = Inr w' \<and> \<not> alive (snd (players w' ! 0)))
   \<and> (\<exists>w'. checkCollisions loneWorld = Inr w' \<and> alive (snd (players w' ! 0)))"
proof
  obtain w' where w': "checkCollisions crashWorld = Inr w'"
    and iff: "\<not> alive (snd (players w' ! 0)) \<longleftrightarrow>
        (\<exists>j l. j < length (players crashWorld) \<and> alive (snd (players crashWorld ! j))
           \<and> l < length (snake (snd (players crashWorld ! j)))
           \<and> snake (snd (players crashWorld ! j)) ! l = hd (snake (snd (players crashWorld ! 0)))
           \<and> (j, l) \<noteq> (0, 0))"
    using checkCollisions_dead_iff [OF crashWorld_wf] by blast
  have "1 < length (players crashWorld) \<and> alive (snd (players crashWorld ! 1))
           \<and> 1 < length (snake (snd (players crashWorld ! 1)))
           \<and> snake (snd (players crashWorld ! 1)) ! 1 = hd (snake (snd (players crashWorld ! 0)))
           \<and> (1::nat, 1::nat) \<noteq> (0, 0)"
    by (simp add: crashWorld_def snakePlayer_def)
  then have "\<not> alive (snd (players w' ! 0))"
    unfolding iff by blast
  with w' show "\<exists>w'. checkCollisions crashWorld = Inr w' \<and> \<not> alive (snd (players w' ! 0))"
    by blast
next
  obtain w' where w': "checkCollisions loneWorld = Inr w'"
    and iff: "\<not> alive (snd (players w' ! 0)) \<longleftrightarrow>
        (\<exists>j l. j < length (players loneWorld) \<and> alive (snd (players loneWorld ! j))
           \<and> l < length (snake (snd (players loneWorld ! j)))
           \<and> snake (snd (players loneWorld ! j)) ! l = hd (snake (snd (players loneWorld ! 0)))
           \<and> (j, l) \<noteq> (0, 0))"
    using checkCollisions_dead_iff [OF loneWorld_wf] by blast
  have "\<not> (\<exists>j l. j < length (players loneWorld) \<and> alive (snd (players loneWorld ! j))
           \<and> l < length (snake (snd (players loneWorld ! j)))
           \<and> snake (snd (players loneWorld ! j)) ! l = hd (snake (snd (players loneWorld ! 0)))
           \<and> (j, l) \<noteq> (0, 0))"
    by (auto simp add: loneWorld_def snakePlayer_def)
  then have "alive (snd (players w' ! 0))"
    using iff by blast
  with w' show "\<exists>w'. checkCollisions loneWorld = Inr w' \<and> alive (snd (players w' ! 0))"
    by blast
qed

subsection \<open>The same loop in \<^verbatim>\<open>server.js\<close>\<close>

lemma srv_hits_live [simp]: "srv_hits p head (srv_live s) \<longleftrightarrow> hits p head s"
  by (simp add: srv_hits_def srv_live_def hits_def)

lemma srv_hits_dead: "srv_hits p head (srv_dead s) \<longleftrightarrow> s = head"
  by (auto simp add: srv_hits_def srv_dead_def prod_eq_iff)

text \<open>
  The pushed segments change nothing as long as each lies on a cell where \<open>base\<close> has a
  segment of a player other than those still to be checked.
\<close>

lemma srv_checkEach_eq:
  assumes "\<forall>e \<in> set extra. \<exists>s \<in> set base. seg_x s = fst e \<and> seg_y s = snd e
              \<and> seg_playerId s \<notin> set (map (\<lambda>kp. pid (snd kp)) rest)"
    and "distinct (map (\<lambda>kp. pid (snd kp)) rest)"
    and "\<forall>kp \<in> set rest. alive (snd kp) \<longrightarrow> set (snakeSegments (snd kp)) \<subseteq> set base"
    and "\<forall>kp \<in> set rest. snake (snd kp) \<noteq> []"
  shows "srv_checkEach (map srv_live base @ map srv_dead extra) rest = checkEach base rest"
  using assms
proof (induction rest arbitrary: extra)
  case Nil
  then show ?case by simp
next
  case (Cons kp rest)
  let ?p = "snd kp"
  have ex': "\<forall>e \<in> set extra. \<exists>s \<in> set base. seg_x s = fst e \<and> seg_y s = snd e
              \<and> seg_playerId s \<notin> set (map (\<lambda>kp. pid (snd kp)) rest)"
    using Cons.prems(1) by fastforce
  have d': "distinct (map (\<lambda>kp. pid (snd kp)) rest)"
    and b': "\<forall>kp \<in> set rest. alive (snd kp) \<longrightarrow> set (snakeSegments (snd kp)) \<subseteq> set base"
    and n': "\<forall>kp \<in> set rest. snake (snd kp) \<noteq> []"
    using Cons.prems(2,3,4) by simp_all
  show ?case
  proof (cases "alive ?p")
    case False
    then show ?thesis using Cons.IH [OF ex' d' b' n'] by simp
  next
    case True
    obtain h t where ht: "snake ?p = h # t"
      using Cons.prems(4) by (cases "snake ?p") auto
    have same: "list_ex (srv_hits ?p h) (map srv_live base @ map srv_dead extra)
        \<longleftrightarrow> list_ex (hits ?p h) base"
    proof -
      have "hits ?p h s" if e: "e \<in> set extra" "e = h"
        and s: "s \<in> set base" "seg_x s = fst e" "seg_y s = snd e"
          "seg_playerId s \<notin> set (map (\<lambda>kp. pid (snd kp)) (kp # rest))" for e s
        using that by (auto simp add: hits_def)
      then have "\<exists>s \<in> set base. hits ?p h s" if "h \<in> set extra"
        using that Cons.prems(1) by blast
      then have i: "h \<in> set extra \<longrightarrow> list_ex (hits ?p h) base"
        by (simp add: list_ex_iff)
      have a: "list_ex (srv_hits ?p h) (map srv_live base) \<longleftrightarrow> list_ex (hits ?p h) base"
        by (induction base) simp_all
      have b: "list_ex (srv_hits ?p h) (map srv_dead extra) \<longleftrightarrow> h \<in> set extra"
        by (induction extra) (auto simp add: srv_hits_dead)
      show ?thesis
        using i by (auto simp add: a b)
    qed
    show ?thesis
    proof (cases "list_ex (hits ?p h) base")
      case False
      then show ?thesis
        using True ht same Cons.IH [OF ex' d' b' n']
        by (simp add: srv_collision_def collision_def)
    next
      case c: True
      have own: "\<forall>e \<in> set (snake ?p). \<exists>s \<in> set base. seg_x s = fst e \<and> seg_y s = snd e
              \<and> seg_playerId s \<notin> set (map (\<lambda>kp. pid (snd kp)) rest)"
      proof
        fix e assume "e \<in> set (snake ?p)"
        then obtain l where l: "l < length (snake ?p)" "snake ?p ! l = e"
          by (auto simp add: in_set_conv_nth)
        let ?s = "\<lparr>seg_x = fst (snake ?p ! l), seg_y = snd (snake ?p ! l),
            seg_playerId = pid ?p, seg_isHead = (l = 0)\<rparr>"
        have "?s \<in> set (snakeSegments ?p)" using l(1) by (auto simp add: snakeSegments_set)
        then have "?s \<in> set base" using Cons.prems(3) True by auto
        moreover have "pid ?p \<notin> set (map (\<lambda>kp. pid (snd kp)) rest)"
          using Cons.prems(2) by simp
        ultimately show "\<exists>s \<in> set base. seg_x s = fst e \<and> seg_y s = snd e
              \<and> seg_playerId s \<notin> set (map (\<lambda>kp. pid (snd kp)) rest)"
          using l(2) by (intro bexI [of _ ?s]) simp_all
      qed
      have "\<forall>e \<in> set (extra @ snake ?p). \<exists>s \<in> set base. seg_x s = fst e \<and> seg_y s = snd e
              \<and> seg_playerId s \<notin> set (map (\<lambda>kp. pid (snd kp)) rest)"
        using ex' own by auto
      then have "srv_checkEach (map srv_live base @ map srv_dead (extra @ snake ?p)) rest
          = checkEach base rest"
        using d' b' n' by (rule Cons.IH)
      then show ?thesis
        using True ht same c by (simp add: srv_collision_def collision_def)
    qed
  qed
qed

lemma srv_checkCollisions_eq:
  assumes "distinct (map (\<lambda>kp. pid (snd kp)) (players w))"
    and "\<forall>kp \<in> set (players w). snake (snd kp) \<noteq> []"
  shows "srv_checkCollisions w = checkCollisions w"
proof -
  have "\<forall>kp \<in> set (players w). alive (snd kp) \<longrightarrow>
      set (snakeSegments (snd kp)) \<subseteq> set (allSegments (players w))"
    by (auto simp add: allSegments_def)
  then have "srv_checkEach (map srv_live (allSegments (players w)) @ map srv_dead []) (players w)
      = checkEach (allSegments (players w)) (players w)"
    using assms by (intro srv_checkEach_eq) simp_all
  then show ?thesis
    by (simp add: srv_checkCollisions_def checkCollisions_def srv_allSegments_def)
qed

section \<open>Frame lemmas for the tick\<close>

lemma refreshFood_players [simp]: "players (refreshFood w) = players w"
  by (simp add: refreshFood_def split: option.splits prod.splits)

lemma checkCollisions_frame:
  "list_all2 (\<lambda>kp kp'. fst kp' = fst kp \<and> (snd kp' = snd kp \<or> snd kp' = (snd kp)\<lparr>alive := False\<rparr>))
     (players w) (players (case_sum snd id (checkCollisions w)))"
  using checkEach_frame [of "players w" "allSegments (players w)"]
  by (cases "checkEach (allSegments (players w)) (players w)")
     (auto simp add: checkCollisions_def)

lemma tick_after_moves:
  "players (tick w) = players (case_sum snd id (checkCollisions (movePlayers (commitDirections w))))"
  by (simp add: tick_def updateGame_def split: sum.splits)

lemma tick_frame:
  "list_all2 (\<lambda>kp kp'. fst kp' = fst kp \<and> (snd kp' = snd kp \<or> snd kp' = (snd kp)\<lparr>alive := False\<rparr>))
     (players (movePlayers (commitDirections w))) (players (tick w))"
  unfolding tick_after_moves by (rule checkCollisions_frame)

lemma movePlayers_length [simp]: "length (players (movePlayers w)) = length (players w)"
  by (simp add: movePlayers_def)

lemma tick_length [simp]: "length (players (tick w)) = length (players w)"
  using tick_frame [of w] by (simp add: list_all2_lengthD [symmetric])

text \<open>The state in which \<open>movePlayer\<close> is called on player \<open>i\<close> during a tick.\<close>

lemma beforeMove_player:
  "i < length (players w) \<Longrightarrow>
   players (movePlayersUpTo i (commitDirections w)) ! i =
     (fst (players w ! i), commitDirection (snd (players w ! i)))"
  by (simp add: movePlayersUpTo_later commitDirections_player)

lemma tick_player:
  assumes "i < length (players w)"
  shows "fst (players (tick w) ! i) = fst (players w ! i)"
    and "snd (players (tick w) ! i) =
            snd (players (movePlayer i (movePlayersUpTo i (commitDirections w))) ! i)
       \<or> snd (players (tick w) ! i) =
            (snd (players (movePlayer i (movePlayersUpTo i (commitDirections w))) ! i))\<lparr>alive := False\<rparr>"
proof -
  let ?m = "movePlayers (commitDirections w)"
  have i: "i < length (players ?m)" using assms by simp
  have m: "players ?m ! i = players (movePlayer i (movePlayersUpTo i (commitDirections w))) ! i"
    using assms by (simp add: movePlayers_player)
  have f: "fst (players (tick w) ! i) = fst (players ?m ! i)
      \<and> (snd (players (tick w) ! i) = snd (players ?m ! i)
         \<or> snd (players (tick w) ! i) = (snd (players ?m ! i))\<lparr>alive := False\<rparr>)"
    using list_all2_nthD [OF tick_frame i] by simp
  have "map fst (players ?m) ! i = map fst (players w) ! i"
    by (simp add: movePlayers_def commitDirections_def comp_def)
  then have k: "fst (players ?m ! i) = fst (players w ! i)"
    using assms by simp
  show "fst (players (tick w) ! i) = fst (players w ! i)"
    using f k by simp
  show "snd (players (tick w) ! i) =
            snd (players (movePlayer i (movePlayersUpTo i (commitDirections w))) ! i)
       \<or> snd (players (tick w) ! i) =
            (snd (players (movePlayer i (movePlayersUpTo i (commitDirections w))) ! i))\<lparr>alive := False\<rparr>"
    using f m by simp
qed

section \<open>Food, score and length in a tick\<close>

lemma commitDirection_fields [simp]:
  "alive (commitDirection p) = alive p"
  "snake (commitDirection p) = snake p"
  "score (commitDirection p) = score p"
  "pid (commitDirection p) = pid p"
  "name (commitDirection p) = name p"
  "color (commitDirection p) = color p"
  by (simp_all add: commitDirection_def)

lemma commitDirection_dead: "\<not> alive p \<Longrightarrow> commitDirection p = p"
  by (simp add: commitDirection_def)

lemma dead_update: "\<not> alive p \<Longrightarrow> p\<lparr>alive := False\<rparr> = p"
  by (cases p) simp

text \<open>Player \<open>i\<close> after the movement loop of a tick.\<close>

lemma moved_player:
  assumes "i < length (players w)"
    and "w1 = movePlayersUpTo i (commitDirections w)"
    and "c = commitDirection (snd (players w ! i))"
  shows "snd (players (movePlayer i w1) ! i) =
     (if \<not> alive c then c
      else case snake c of
        [] \<Rightarrow> c
      | h # t \<Rightarrow>
          if food w1 = Some (newHead (direction c) h)
          then c\<lparr>snake := newHead (direction c) h # h # t, score := score c + FOOD_SCORE\<rparr>
          else c\<lparr>snake := newHead (direction c) h # butlast (h # t)\<rparr>)"
proof -
  have l: "i < length (players w1)" using assms by simp
  have p: "snd (players w1 ! i) = c" using assms by (simp add: beforeMove_player)
  show ?thesis
  proof (cases "alive c")
    case False
    with p show ?thesis by (simp add: movePlayer_dead)
  next
    case True
    show ?thesis
    proof (cases "snake c")
      case Nil
      with p True show ?thesis by (simp add: movePlayer_empty)
    next
      case (Cons h t)
      with p True l show ?thesis by (simp add: movePlayer_player)
    qed
  qed
qed

text \<open>
  C3. Let player \<open>i\<close> be alive with a snake \<open>h # t\<close> when a tick starts. \<open>w1\<close> is the state
  in which the tick calls \<open>movePlayer\<close> on the player (the directions committed, the
  players before \<open>i\<close> moved) and \<open>nh\<close> the new head. If the food of \<open>w1\<close> is at \<open>nh\<close>,
  the tick adds exactly \<open>FOOD_SCORE\<close> to the score and exactly one segment to the snake;
  if it is not (or there is no food), score and length are after the tick what they were before.
  (\<^verbatim>\<open>server.js\<close> has the same function with the reward 10 written out.)
\<close>

theorem tick_food_score_length:
  assumes "i < length (players w)"
    and "alive (snd (players w ! i))"
    and "snake (snd (players w ! i)) = h # t"
    and "p = snd (players w ! i)"
    and "w1 = movePlayersUpTo i (commitDirections w)"
    and "nh = newHead (direction (commitDirection p)) h"
    and "p' = snd (players (tick w) ! i)"
  shows "(food w1 = Some nh \<longrightarrow>
            score p' = score p + FOOD_SCORE \<and> length (snake p') = length (snake p) + 1)
       \<and> (food w1 \<noteq> Some nh \<longrightarrow>
            score p' = score p \<and> length (snake p') = length (snake p))"
proof -
  let ?c = "commitDirection p"
  let ?q = "snd (players (movePlayer i w1) ! i)"
  have q: "?q = (if food w1 = Some nh
          then ?c\<lparr>snake := nh # h # t, score := score ?c + FOOD_SCORE\<rparr>
          else ?c\<lparr>snake := nh # butlast (h # t)\<rparr>)"
    using moved_player [OF assms(1) assms(5) refl] assms(2,3,4,6) by simp
  have "p' = ?q \<or> p' = ?q\<lparr>alive := False\<rparr>"
    using tick_player(2) [OF assms(1)] assms(5,7) by simp
  then have "score p' = score ?q \<and> snake p' = snake ?q" by auto
  then show ?thesis using q assms(3,4) by simp
qed

lemma loneWorld_player:
  "length (players loneWorld) = 1"
  "players loneWorld ! 0 = (''a7'', snakePlayer ''a7'' [(5, 5)] ''right'')"
  "food loneWorld = Some (6, 5)"
  by (simp_all add: loneWorld_def)

theorem tick_food_score_length_witness:
  "food (movePlayersUpTo 0 (commitDirections loneWorld)) = Some (6, 5)
   \<and> newHead (direction (commitDirection (snd (players loneWorld ! 0)))) (5, 5) = (6, 5)
   \<and> score (snd (players (tick loneWorld) ! 0)) = score (snd (players loneWorld ! 0)) + FOOD_SCORE
   \<and> length (snake (snd (players (tick loneWorld) ! 0))) = 2
   \<and> food (movePlayersUpTo 0 (commitDirections edgeWorld)) = Some (3, 3)
   \<and> newHead (direction (commitDirection (snd (players edgeWorld ! 0)))) (24, 7) = (0, 7)
   \<and> score (snd (players (tick edgeWorld) ! 0)) = score (snd (players edgeWorld ! 0))
   \<and> length (snake (snd (players (tick edgeWorld) ! 0))) = 2"
proof -
  have f: "food (movePlayersUpTo 0 (commitDirections loneWorld)) = Some (6, 5)"
    by (simp add: loneWorld_player)
  have n: "newHead (direction (commitDirection (snd (players loneWorld ! 0)))) (5, 5) = (6, 5)"
    by (simp add: loneWorld_player snakePlayer_def commitDirection_def newHead_def shiftHead_def
        wrapHead_def js_rem_def GRID_SIZE_def)
  have 1: "score (snd (players (tick loneWorld) ! 0)) = score (snd (players loneWorld ! 0)) + FOOD_SCORE
      \<and> length (snake (snd (players (tick loneWorld) ! 0))) = length (snake (snd (players loneWorld ! 0))) + 1"
    using tick_food_score_length [of 0 loneWorld "(5, 5)" "[]", OF _ _ _ refl refl refl refl,
        THEN conjunct1] f n
    by (simp add: loneWorld_player snakePlayer_def)
  have f2: "food (movePlayersUpTo 0 (commitDirections edgeWorld)) = Some (3, 3)"
    by (simp add: edgeWorld_def)
  have n2: "newHead (direction (commitDirection (snd (players edgeWorld ! 0)))) (24, 7) = (0, 7)"
    by (simp add: edgeWorld_player snakePlayer_def commitDirection_def newHead_def shiftHead_def
        wrapHead_def js_rem_def GRID_SIZE_def)
  have 2: "score (snd (players (tick edgeWorld) ! 0)) = score (snd (players edgeWorld ! 0))
      \<and> length (snake (snd (players (tick edgeWorld) ! 0))) = length (snake (snd (players edgeWorld ! 0)))"
    using tick_food_score_length [of 0 edgeWorld "(24, 7)" "[(23, 7)]", OF _ _ _ refl refl refl refl,
        THEN conjunct2] f2 n2
    by (simp add: edgeWorld_player snakePlayer_def)
  show ?thesis
    using f n 1 f2 n2 2 by (simp add: loneWorld_player edgeWorld_player snakePlayer_def)
qed

lemma onClose_other:
  assumes "i < length (players w)" and "k \<noteq> fst (players w ! i)"
  shows "players w ! i \<in> set (players (onClose k w))"
proof -
  have "players w ! i \<in> set (filter (\<lambda>kp. fst kp \<noteq> k) (players w))"
    using assms by simp
  moreover have "players w ! i \<in> set (players w)"
    using assms(1) by simp
  moreover have "players (onClose k w) = players w
      \<or> players (onClose k w) = filter (\<lambda>kp. fst kp \<noteq> k) (players w)"
    by (simp add: onClose_def Let_def split: option.splits)
  ultimately show ?thesis by metis
qed

lemma onClose_own: "k \<notin> fst ` set (players (onClose k w))"
  by (auto simp add: onClose_def lookupPlayer_def Let_def map_of_eq_None_iff split: option.splits)

text \<open>
  C7. A tick leaves a player that is not alive exactly as it was, at its place in the world:
  no field of the record changes, so the snake neither moves nor disappears. The player
  stays in the world when another connection closes, and is gone once its own connection
  has closed.
\<close>

theorem tick_dead_player_unchanged:
  assumes "i < length (players w)"
    and "\<not> alive (snd (players w ! i))"
  shows "players (tick w) ! i = players w ! i \<and> length (players (tick w)) = length (players w)
    \<and> (\<forall>k. k \<noteq> fst (players w ! i) \<longrightarrow> players w ! i \<in> set (players (onClose k w)))
    \<and> fst (players w ! i) \<notin> fst ` set (players (onClose (fst (players w ! i)) w))"
proof -
  let ?p = "snd (players w ! i)"
  have c: "commitDirection ?p = ?p" using assms(2) by (rule commitDirection_dead)
  have "snd (players (movePlayer i (movePlayersUpTo i (commitDirections w))) ! i) = ?p"
    using moved_player [OF assms(1) refl refl] assms(2) c by simp
  then have "snd (players (tick w) ! i) = ?p \<or> snd (players (tick w) ! i) = ?p\<lparr>alive := False\<rparr>"
    using tick_player(2) [OF assms(1)] by simp
  then have "snd (players (tick w) ! i) = ?p"
    using assms(2) by (auto simp add: dead_update)
  moreover have "fst (players (tick w) ! i) = fst (players w ! i)"
    using assms(1) by (rule tick_player(1))
  ultimately have "players (tick w) ! i = players w ! i" by (simp add: prod_eq_iff)
  then show ?thesis
    using onClose_other [OF assms(1)] onClose_own by simp
qed

theorem tick_dead_player_unchanged_witness:
  "\<not> alive (snd (players frozenWorld ! 0))
   \<and> players (tick frozenWorld) ! 0 = players frozenWorld ! 0
   \<and> snake (snd (players (tick frozenWorld) ! 0)) = [(5, 5), (4, 5)]
   \<and> players frozenWorld ! 0 \<in> set (players (onClose ''b2'' frozenWorld))"
proof -
  have l: "0 < length (players frozenWorld)" and d: "\<not> alive (snd (players frozenWorld ! 0))"
    by (simp_all add: frozenWorld_def snakePlayer_def)
  have k: "''b2'' \<noteq> fst (players frozenWorld ! 0)"
    by (simp add: frozenWorld_def)
  from tick_dead_player_unchanged [OF l d] k
  have "players (tick frozenWorld) ! 0 = players frozenWorld ! 0"
    and "players frozenWorld ! 0 \<in> set (players (onClose ''b2'' frozenWorld))"
    by blast+
  moreover have "snake (snd (players frozenWorld ! 0)) = [(5, 5), (4, 5)]"
    by (simp add: frozenWorld_def snakePlayer_def)
  ultimately show ?thesis using d by simp
qed

section \<open>Connections, messages and the score\<close>

lemma insertNew_set: "set (insertNew k p ps) = insert (k, p) (set ps)"
  by (induction ps) auto

lemma assignPlayer_set:
  "set (players (assignPlayer k p w)) \<subseteq> insert (k, p) (set (players w))"
  by (auto simp add: assignPlayer_def insertNew_set split: if_splits)

lemma onConnect_players:
  assumes "kp \<in> set (players (onConnect k w))"
  shows "kp \<in> set (players w)
     \<or> (fst kp = k \<and> pid (snd kp) = k \<and> length (snake (snd kp)) = 1
        \<and> pendingDirection (snd kp) = JNull \<and> score (snd kp) = 0 \<and> alive (snd kp))"
proof -
  obtain u r0 where g0: "Math_random (rng w) = (u, r0)" by (meson surj_pair)
  obtain pos r1 where g1: "getRandomPosition r0 = (pos, r1)" by (meson surj_pair)
  obtain dir r2 where g2: "getRandomDirection r1 = (dir, r2)" by (meson surj_pair)
  obtain col r3 where g3: "getRandomColor r2 = (col, r3)" by (meson surj_pair)
  let ?p = "\<lparr>pid = k, name = ''Player '' @ decimal (length (players w) + 1), snake = [pos],
      direction = dir, pendingDirection = JNull, score = 0, color = col, alive = True\<rparr>"
  have "players (onConnect k w) = players (assignPlayer k ?p w)"
    by (simp add: onConnect_def g0 g1 g2 g3)
  then have "kp \<in> insert (k, ?p) (set (players w))"
    using assms assignPlayer_set [of k ?p w] by auto
  then show ?thesis by auto
qed

lemma updatePlayer_length [simp]: "length (players (updatePlayer k f w)) = length (players w)"
  by (simp add: updatePlayer_def)

lemma updatePlayer_nth:
  "i < length (players w) \<Longrightarrow>
   players (updatePlayer k f w) ! i =
     (if fst (players w ! i) = k then (fst (players w ! i), f (snd (players w ! i)))
      else players w ! i)"
  by (simp add: updatePlayer_def)

lemma messageBody_cases:
  assumes "messageBody k m w = Inr w'"
  shows "w' = w \<or> (\<exists>d. w' = updatePlayer k (\<lambda>p. p\<lparr>pendingDirection := d\<rparr>) w)
     \<or> (\<exists>s. w' = updatePlayer k (\<lambda>p. p\<lparr>name := s\<rparr>) w)"
  using assms
  by (auto simp add: messageBody_def split: option.splits sum.splits if_splits)

lemma onMessage_cases:
  "\<exists>w'. onMessage k m w = Inr w' \<and>
     (w' = w \<or> (\<exists>d. w' = updatePlayer k (\<lambda>p. p\<lparr>pendingDirection := d\<rparr>) w)
       \<or> (\<exists>s. w' = updatePlayer k (\<lambda>p. p\<lparr>name := s\<rparr>) w))"
proof (cases "messageBody k m w")
  case (Inl e)
  then show ?thesis by (simp add: onMessage_def)
next
  case (Inr w')
  then show ?thesis using messageBody_cases [OF Inr] by (simp add: onMessage_def)
qed

text \<open>A message changes at most the pending direction and the name of a player.\<close>

lemma onMessage_field:
  assumes "\<And>p d. g (p\<lparr>pendingDirection := d\<rparr>) = g p"
    and "\<And>p s. g (p\<lparr>name := s\<rparr>) = g p"
    and "i < length (players w)"
  shows "\<exists>w'. onMessage k m w = Inr w' \<and> length (players w') = length (players w)
     \<and> fst (players w' ! i) = fst (players w ! i) \<and> g (snd (players w' ! i)) = g (snd (players w ! i))"
proof -
  obtain w' where r: "onMessage k m w = Inr w'"
    and c: "w' = w \<or> (\<exists>d. w' = updatePlayer k (\<lambda>p. p\<lparr>pendingDirection := d\<rparr>) w)
       \<or> (\<exists>s. w' = updatePlayer k (\<lambda>p. p\<lparr>name := s\<rparr>) w)"
    using onMessage_cases by blast
  from c assms have "length (players w') = length (players w)
     \<and> fst (players w' ! i) = fst (players w ! i) \<and> g (snd (players w' ! i)) = g (snd (players w ! i))"
    by (auto simp add: updatePlayer_nth)
  with r show ?thesis by blast
qed

lemma moved_player_score:
  assumes "i < length (players w)"
  shows "score (snd (players w ! i))
     \<le> score (snd (players (movePlayer i (movePlayersUpTo i (commitDirections w))) ! i))"
  using moved_player [OF assms refl refl]
  by (simp add: FOOD_SCORE_def split: list.splits)

lemma checkCollisions_nth:
  assumes "i < length (players w)"
  shows "fst (players (case_sum snd id (checkCollisions w)) ! i) = fst (players w ! i)
    \<and> (snd (players (case_sum snd id (checkCollisions w)) ! i) = snd (players w ! i)
       \<or> snd (players (case_sum snd id (checkCollisions w)) ! i) = (snd (players w ! i))\<lparr>alive := False\<rparr>)"
  using list_all2_nthD [OF checkCollisions_frame assms] by simp

text \<open>
  C10. For every player of the world, at its place \<open>i\<close>: after a tick the same player (the
  same key) is at that place and its score is at least what it was; a message, whatever it
  is and whoever sends it, returns and leaves every score as it was; and collision
  resolution, whether it returns or throws, leaves every score as it was, also that of a
  player it marks dead.
\<close>

theorem score_never_decreases:
  assumes "i < length (players w)"
  shows "fst (players (tick w) ! i) = fst (players w ! i)
    \<and> score (snd (players w ! i)) \<le> score (snd (players (tick w) ! i))
    \<and> (\<forall>k m. \<exists>w'. onMessage k m w = Inr w' \<and> length (players w') = length (players w)
          \<and> fst (players w' ! i) = fst (players w ! i)
          \<and> score (snd (players w' ! i)) = score (snd (players w ! i)))
    \<and> fst (players (case_sum snd id (checkCollisions w)) ! i) = fst (players w ! i)
    \<and> score (snd (players (case_sum snd id (checkCollisions w)) ! i)) = score (snd (players w ! i))"
proof -
  let ?q = "snd (players (movePlayer i (movePlayersUpTo i (commitDirections w))) ! i)"
  have "snd (players (tick w) ! i) = ?q \<or> snd (players (tick w) ! i) = ?q\<lparr>alive := False\<rparr>"
    using assms by (rule tick_player(2))
  then have "score (snd (players (tick w) ! i)) = score ?q" by auto
  then have t: "score (snd (players w ! i)) \<le> score (snd (players (tick w) ! i))"
    using moved_player_score [OF assms] by simp
  have m: "\<exists>w'. onMessage k m w = Inr w' \<and> length (players w') = length (players w)
          \<and> fst (players w' ! i) = fst (players w ! i)
          \<and> score (snd (players w' ! i)) = score (snd (players w ! i))" for k m
    using assms by (intro onMessage_field) simp_all
  have c: "fst (players (case_sum snd id (checkCollisions w)) ! i) = fst (players w ! i)
    \<and> score (snd (players (case_sum snd id (checkCollisions w)) ! i)) = score (snd (players w ! i))"
    using checkCollisions_nth [OF assms] by auto
  show ?thesis
    using tick_player(1) [OF assms] t m c by blast
qed

theorem score_never_decreases_witness:
  "score (snd (players loneWorld ! 0)) = 0 \<and> score (snd (players (tick loneWorld) ! 0)) \<ge> 0
   \<and> fst (players (tick loneWorld) ! 0) = ''a7''"
proof -
  have l: "0 < length (players loneWorld)" by (simp add: loneWorld_player)
  from score_never_decreases [OF l]
  have "fst (players (tick loneWorld) ! 0) = fst (players loneWorld ! 0)"
    and "score (snd (players loneWorld ! 0)) \<le> score (snd (players (tick loneWorld) ! 0))"
    by blast+
  then show ?thesis by (simp add: loneWorld_player snakePlayer_def)
qed

section \<open>Every snake has a segment\<close>

lemma commitDirections_snakes:
  "(\<forall>kp \<in> set (players (commitDirections w)). snake (snd kp) \<noteq> []) \<longleftrightarrow>
   (\<forall>kp \<in> set (players w). snake (snd kp) \<noteq> [])"
  by (simp add: commitDirections_def)

lemma movePlayer_beyond:
  "\<not> i < length (players w) \<Longrightarrow> players (movePlayer i w) = players w"
  by (simp add: movePlayer_def setPlayer_def Let_def not_less list_update_beyond
      split: list.splits prod.splits)

lemma movePlayer_snake_nonempty:
  assumes "\<forall>kp \<in> set (players w). snake (snd kp) \<noteq> []"
  shows "\<forall>kp \<in> set (players (movePlayer i w)). snake (snd kp) \<noteq> []"
proof (cases "i < length (players w)")
  case False
  with assms show ?thesis by (simp add: movePlayer_beyond)
next
  case True
  have "snake (snd (players (movePlayer i w) ! j)) \<noteq> []"
    if "j < length (players (movePlayer i w))" for j
  proof (cases "j = i")
    case False
    then show ?thesis using that assms by (simp add: movePlayer_other)
  next
    case j: True
    show ?thesis
    proof (cases "alive (snd (players w ! i))")
      case False
      then show ?thesis using j True assms by (simp add: movePlayer_dead)
    next
      case a: True
      from assms True have "snake (snd (players w ! i)) \<noteq> []" by simp
      then obtain h t where "snake (snd (players w ! i)) = h # t"
        by (cases "snake (snd (players w ! i))") auto
      then show ?thesis using j True a by (simp add: movePlayer_snake)
    qed
  qed
  then show ?thesis by (simp add: all_set_conv_all_nth)
qed

lemma movePlayersUpTo_snake_nonempty:
  assumes "\<forall>kp \<in> set (players w). snake (snd kp) \<noteq> []"
  shows "\<forall>kp \<in> set (players (movePlayersUpTo n w)). snake (snd kp) \<noteq> []"
proof (induction n)
  case 0
  with assms show ?case by simp
next
  case (Suc n)
  then show ?case
    unfolding movePlayersUpTo_Suc by (rule movePlayer_snake_nonempty)
qed

lemma checkCollisions_snakes:
  assumes "\<forall>kp \<in> set (players w). snake (snd kp) \<noteq> []"
  shows "\<forall>kp \<in> set (players (case_sum snd id (checkCollisions w))). snake (snd kp) \<noteq> []"
proof -
  have "snake (snd (players (case_sum snd id (checkCollisions w)) ! j)) \<noteq> []"
    if "j < length (players w)" for j
  proof -
    from assms that have "snake (snd (players w ! j)) \<noteq> []" by simp
    then show ?thesis using checkCollisions_nth [OF that] by auto
  qed
  moreover have "length (players (case_sum snd id (checkCollisions w))) = length (players w)"
    using checkCollisions_frame [of w] by (simp add: list_all2_lengthD)
  ultimately show ?thesis by (simp add: all_set_conv_all_nth)
qed

lemma tick_snakes:
  assumes "\<forall>kp \<in> set (players w). snake (snd kp) \<noteq> []"
  shows "\<forall>kp \<in> set (players (tick w)). snake (snd kp) \<noteq> []"
proof -
  have "\<forall>kp \<in> set (players (commitDirections w)). snake (snd kp) \<noteq> []"
    using assms by (simp only: commitDirections_snakes)
  then have "\<forall>kp \<in> set (players (movePlayers (commitDirections w))). snake (snd kp) \<noteq> []"
    unfolding movePlayers_def by (rule movePlayersUpTo_snake_nonempty)
  then show ?thesis
    unfolding tick_after_moves by (rule checkCollisions_snakes)
qed

lemma updatePlayer_snakes:
  assumes "\<And>p. snake (f p) = snake p"
  shows "(\<forall>kp \<in> set (players (updatePlayer k f w)). snake (snd kp) \<noteq> []) \<longleftrightarrow>
         (\<forall>kp \<in> set (players w). snake (snd kp) \<noteq> [])"
  using assms by (auto simp add: all_set_conv_all_nth updatePlayer_nth)

lemma onMessage_snakes:
  assumes "\<forall>kp \<in> set (players w). snake (snd kp) \<noteq> []"
  shows "\<exists>w'. onMessage k m w = Inr w' \<and> (\<forall>kp \<in> set (players w'). snake (snd kp) \<noteq> [])"
proof -
  obtain w' where r: "onMessage k m w = Inr w'"
    and c: "w' = w \<or> (\<exists>d. w' = updatePlayer k (\<lambda>p. p\<lparr>pendingDirection := d\<rparr>) w)
       \<or> (\<exists>s. w' = updatePlayer k (\<lambda>p. p\<lparr>name := s\<rparr>) w)"
    using onMessage_cases by blast
  have "\<forall>kp \<in> set (players (updatePlayer k (\<lambda>p. p\<lparr>pendingDirection := d\<rparr>) w)). snake (snd kp) \<noteq> []"
    for d using assms by (simp add: updatePlayer_snakes)
  moreover have "\<forall>kp \<in> set (players (updatePlayer k (\<lambda>p. p\<lparr>name := s\<rparr>) w)). snake (snd kp) \<noteq> []"
    for s using assms by (simp add: updatePlayer_snakes)
  ultimately have "\<forall>kp \<in> set (players w'). snake (snd kp) \<noteq> []"
    using c assms by blast
  with r show ?thesis by blast
qed

lemma onConnect_snakes:
  assumes "\<forall>kp \<in> set (players w). snake (snd kp) \<noteq> []"
  shows "\<forall>kp \<in> set (players (onConnect k w)). snake (snd kp) \<noteq> []"
proof
  fix kp
  assume "kp \<in> set (players (onConnect k w))"
  then have "kp \<in> set (players w) \<or> length (snake (snd kp)) = 1"
    using onConnect_players [of kp k w] by blast
  with assms show "snake (snd kp) \<noteq> []" by auto
qed

lemma onClose_snakes:
  assumes "\<forall>kp \<in> set (players w). snake (snd kp) \<noteq> []"
  shows "\<forall>kp \<in> set (players (onClose k w)). snake (snd kp) \<noteq> []"
  using assms by (auto simp add: onClose_def Let_def split: option.splits)

text \<open>
  C9. If every snake of a world has at least one segment, then so has every snake of the
  world after a new connection (the new snake has exactly one), after the direction commit,
  after \<open>movePlayer\<close> on any player (which resolves the food too) and after the whole
  movement loop, after collision resolution whether it returns or throws, after the food
  refresh, after a whole tick, after any message and after a connection is closed. The
  server starts with no player, so every snake it ever holds has a segment
  (\<open>reachable_snakes\<close>).
\<close>

theorem snake_length_invariant:
  assumes "\<forall>kp \<in> set (players w). 1 \<le> length (snake (snd kp))"
  shows "(\<forall>kp \<in> set (players (onConnect k w)). 1 \<le> length (snake (snd kp)))
    \<and> (\<forall>kp \<in> set (players (commitDirections w)). 1 \<le> length (snake (snd kp)))
    \<and> (\<forall>kp \<in> set (players (movePlayer i w)). 1 \<le> length (snake (snd kp)))
    \<and> (\<forall>kp \<in> set (players (movePlayers w)). 1 \<le> length (snake (snd kp)))
    \<and> (\<forall>kp \<in> set (players (case_sum snd id (checkCollisions w))). 1 \<le> length (snake (snd kp)))
    \<and> (\<forall>kp \<in> set (players (refreshFood w)). 1 \<le> length (snake (snd kp)))
    \<and> (\<forall>kp \<in> set (players (tick w)). 1 \<le> length (snake (snd kp)))
    \<and> (\<exists>w'. onMessage k m w = Inr w' \<and> (\<forall>kp \<in> set (players w'). 1 \<le> length (snake (snd kp))))
    \<and> (\<forall>kp \<in> set (players (onClose k w)). 1 \<le> length (snake (snd kp)))"
proof -
  have conv: "1 \<le> length xs \<longleftrightarrow> xs \<noteq> []" for xs :: "position list"
    by (cases xs) simp_all
  have a: "\<forall>kp \<in> set (players w). snake (snd kp) \<noteq> []"
    using assms unfolding conv .
  have 4: "\<forall>kp \<in> set (players (movePlayers w)). snake (snd kp) \<noteq> []"
    unfolding movePlayers_def using a by (rule movePlayersUpTo_snake_nonempty)
  have 2: "\<forall>kp \<in> set (players (commitDirections w)). snake (snd kp) \<noteq> []"
    using a by (simp only: commitDirections_snakes)
  have 6: "\<forall>kp \<in> set (players (refreshFood w)). snake (snd kp) \<noteq> []"
    using a by simp
  show ?thesis
    unfolding conv
    using onConnect_snakes [OF a] 2 movePlayer_snake_nonempty [OF a] 4
      checkCollisions_snakes [OF a] 6 tick_snakes [OF a] onMessage_snakes [OF a]
      onClose_snakes [OF a]
    by (intro conjI)
qed

theorem snake_length_invariant_witness:
  "list_all (\<lambda>kp. 1 \<le> length (snake (snd kp))) (players loneWorld)
   \<and> 1 \<le> length (snake (snd (players (tick loneWorld) ! 0)))
   \<and> 1 \<le> length (snake (snd (players (movePlayer 0 loneWorld) ! 0)))"
proof -
  have a: "\<forall>kp \<in> set (players loneWorld). 1 \<le> length (snake (snd kp))"
    by (simp add: loneWorld_def snakePlayer_def)
  have "players (tick loneWorld) ! 0 \<in> set (players (tick loneWorld))"
    and "players (movePlayer 0 loneWorld) ! 0 \<in> set (players (movePlayer 0 loneWorld))"
    by (simp_all add: loneWorld_player)
  then have "1 \<le> length (snake (snd (players (tick loneWorld) ! 0)))"
    and "1 \<le> length (snake (snd (players (movePlayer 0 loneWorld) ! 0)))"
    using snake_length_invariant [OF a, of "''a7''" 0 None] by blast+
  then show ?thesis using a by (simp add: list_all_iff)
qed

section \<open>The states the server reaches\<close>

lemma insertNew_keys: "set (map fst (insertNew k p ps)) = insert k (set (map fst ps))"
  by (induction ps) auto

lemma insertNew_distinct:
  "distinct (map fst ps) \<Longrightarrow> k \<notin> set (map fst ps) \<Longrightarrow> distinct (map fst (insertNew k p ps))"
proof (induction ps)
  case Nil
  then show ?case by simp
next
  case (Cons kp rest)
  then have "fst kp \<notin> set (map fst (insertNew k p rest))"
    by (simp only: insertNew_keys) auto
  with Cons show ?case by auto
qed

lemma assignPlayer_distinct:
  assumes "distinct (map fst (players w))"
  shows "distinct (map fst (players (assignPlayer k p w)))"
proof (cases "map_of (players w) k")
  case None
  then have "k \<notin> set (map fst (players w))" by (simp add: map_of_eq_None_iff)
  with assms None show ?thesis by (simp add: assignPlayer_def insertNew_distinct)
next
  case (Some a)
  have "fst \<circ> (\<lambda>kp. if fst kp = k then (k, p) else kp) = fst"
    by (auto simp add: fun_eq_iff)
  with assms Some show ?thesis by (simp add: assignPlayer_def)
qed

lemma onConnect_distinct:
  "distinct (map fst (players w)) \<Longrightarrow> distinct (map fst (players (onConnect k w)))"
  by (simp add: onConnect_def assignPlayer_distinct split: prod.splits)

lemma updatePlayer_keys [simp]: "map fst (players (updatePlayer k f w)) = map fst (players w)"
  by (simp add: updatePlayer_def comp_def)

lemma onMessage_keys:
  "onMessage k m w = Inr w' \<Longrightarrow> map fst (players w') = map fst (players w)"
  using onMessage_cases [of k m w] by auto

lemma tick_keys: "map fst (players (tick w)) = map fst (players w)"
  by (rule nth_equalityI) (simp_all add: tick_player(1))

lemma onClose_distinct:
  "distinct (map fst (players w)) \<Longrightarrow> distinct (map fst (players (onClose k w)))"
  by (simp add: onClose_def Let_def distinct_map_filter split: option.splits)

lemma reachable_distinct: "reachable w \<Longrightarrow> distinct (map fst (players w))"
proof (induction rule: reachable.induct)
  case (start r)
  then show ?case by (simp add: initialState_def)
next
  case (connect w playerId)
  then show ?case by (simp add: onConnect_distinct)
next
  case (message w playerId parsed w')
  then show ?case by (simp add: onMessage_keys)
next
  case (close w playerId)
  then show ?case by (simp add: onClose_distinct)
next
  case (timer w)
  then show ?case by (simp add: tick_keys)
qed

text \<open>What a tick can make of a player: the committed player, with another snake, score and flag.\<close>

lemma tick_player_form:
  assumes "i < length (players w)"
  shows "\<exists>s n a. snd (players (tick w) ! i) =
     (commitDirection (snd (players w ! i)))\<lparr>snake := s, score := n, alive := a\<rparr>"
proof -
  let ?c = "commitDirection (snd (players w ! i))"
  let ?q = "snd (players (movePlayer i (movePlayersUpTo i (commitDirections w))) ! i)"
  have "?q = ?c\<lparr>snake := snake ?q, score := score ?q, alive := alive ?c\<rparr>"
    using moved_player [OF assms refl refl] by (simp split: list.splits)
  moreover have "snd (players (tick w) ! i) = ?q \<or> snd (players (tick w) ! i) = ?q\<lparr>alive := False\<rparr>"
    using assms by (rule tick_player(2))
  ultimately have "snd (players (tick w) ! i) = ?c\<lparr>snake := snake ?q, score := score ?q, alive := alive ?c\<rparr>
      \<or> snd (players (tick w) ! i) = ?c\<lparr>snake := snake ?q, score := score ?q, alive := False\<rparr>"
    by (metis (no_types, lifting) player.surjective player.update_convs(8))
  then show ?thesis by blast
qed

lemma notReversal_JNull [simp]: "notReversal d JNull"
  by (simp add: notReversal_def)

lemma commitDirection_notReversal:
  "notReversal (direction p) (pendingDirection p) \<Longrightarrow>
   notReversal (direction (commitDirection p)) (pendingDirection (commitDirection p))"
  by (simp add: commitDirection_def)

lemma commitDirection_turn:
  "notReversal (direction p) (pendingDirection p) \<Longrightarrow>
   notReversal (direction p) (direction (commitDirection p))"
  by (auto simp add: commitDirection_def notReversal_def)

lemma messageBody_direction:
  assumes "messageBody k m w = Inr w'"
  shows "w' = w
     \<or> (\<exists>d p. lookupPlayer k w = Some p \<and> notReversal (direction p) d
          \<and> w' = updatePlayer k (\<lambda>p. p\<lparr>pendingDirection := d\<rparr>) w)
     \<or> (\<exists>s. w' = updatePlayer k (\<lambda>p. p\<lparr>name := s\<rparr>) w)"
  using assms
  by (auto simp add: messageBody_def split: option.splits sum.splits if_splits)

lemma onMessage_direction:
  assumes "onMessage k m w = Inr w'"
  shows "w' = w
     \<or> (\<exists>d p. lookupPlayer k w = Some p \<and> notReversal (direction p) d
          \<and> w' = updatePlayer k (\<lambda>p. p\<lparr>pendingDirection := d\<rparr>) w)
     \<or> (\<exists>s. w' = updatePlayer k (\<lambda>p. p\<lparr>name := s\<rparr>) w)"
proof (cases "messageBody k m w")
  case (Inl e)
  with assms show ?thesis by (simp add: onMessage_def)
next
  case (Inr w2)
  with assms have "w2 = w'" by (simp add: onMessage_def)
  with Inr show ?thesis using messageBody_direction by blast
qed

lemma onMessage_playerOk:
  assumes "distinct (map fst (players w))"
    and "\<forall>kp \<in> set (players w). playerOk kp"
    and "onMessage k m w = Inr w'"
  shows "\<forall>kp \<in> set (players w'). playerOk kp"
proof -
  consider "w' = w"
    | d p where "lookupPlayer k w = Some p" "notReversal (direction p) d"
        "w' = updatePlayer k (\<lambda>p. p\<lparr>pendingDirection := d\<rparr>) w"
    | s where "w' = updatePlayer k (\<lambda>p. p\<lparr>name := s\<rparr>) w"
    using onMessage_direction [OF assms(3)] by blast
  then show ?thesis
  proof cases
    case 1
    with assms(2) show ?thesis by simp
  next
    case (2 d p)
    have "playerOk (players w' ! i)" if "i < length (players w)" for i
    proof (cases "fst (players w ! i) = k")
      case False
      with that assms(2) 2(3) show ?thesis by (simp add: updatePlayer_nth)
    next
      case True
      have "players w ! i \<in> set (players w)" using that by simp
      then have "map_of (players w) (fst (players w ! i)) = Some (snd (players w ! i))"
        using assms(1) by (simp add: map_of_eq_Some_iff)
      with True 2(1) have "snd (players w ! i) = p" by (simp add: lookupPlayer_def)
      moreover have "playerOk (players w ! i)" using that assms(2) by simp
      ultimately show ?thesis
        using that True 2(2,3) by (simp add: updatePlayer_nth playerOk_def)
    qed
    then show ?thesis using 2(3) by (simp add: all_set_conv_all_nth)
  next
    case (3 s)
    have "playerOk (players w' ! i)" if "i < length (players w)" for i
    proof -
      have "playerOk (players w ! i)" using that assms(2) by simp
      then show ?thesis using that 3 by (simp add: updatePlayer_nth playerOk_def)
    qed
    then show ?thesis using 3 by (simp add: all_set_conv_all_nth)
  qed
qed

lemma tick_playerOk:
  assumes "\<forall>kp \<in> set (players w). playerOk kp"
  shows "\<forall>kp \<in> set (players (tick w)). playerOk kp"
proof -
  have s: "\<forall>kp \<in> set (players (tick w)). snake (snd kp) \<noteq> []"
    using assms by (intro tick_snakes) (simp add: playerOk_def)
  have "playerOk (players (tick w) ! i)" if "i < length (players w)" for i
  proof -
    note i = that
    let ?p = "snd (players w ! i)"
    have ok: "playerOk (players w ! i)" using that assms by simp
    obtain sn n a where f: "snd (players (tick w) ! i) =
        (commitDirection ?p)\<lparr>snake := sn, score := n, alive := a\<rparr>"
      using tick_player_form [OF i] by blast
    have "snake (snd (players (tick w) ! i)) \<noteq> []" using s that by simp
    moreover have "notReversal (direction (commitDirection ?p)) (pendingDirection (commitDirection ?p))"
      using ok by (intro commitDirection_notReversal) (simp add: playerOk_def)
    ultimately show ?thesis
      using f ok tick_player(1) [OF that] by (simp add: playerOk_def)
  qed
  then show ?thesis by (simp add: all_set_conv_all_nth)
qed

lemma onConnect_playerOk:
  assumes "\<forall>kp \<in> set (players w). playerOk kp"
  shows "\<forall>kp \<in> set (players (onConnect k w)). playerOk kp"
proof
  fix kp
  assume "kp \<in> set (players (onConnect k w))"
  then have "kp \<in> set (players w)
     \<or> (fst kp = k \<and> pid (snd kp) = k \<and> length (snake (snd kp)) = 1
        \<and> pendingDirection (snd kp) = JNull \<and> score (snd kp) = 0 \<and> alive (snd kp))"
    by (rule onConnect_players)
  with assms show "playerOk kp" by (auto simp add: playerOk_def)
qed

lemma onClose_playerOk:
  assumes "\<forall>kp \<in> set (players w). playerOk kp"
  shows "\<forall>kp \<in> set (players (onClose k w)). playerOk kp"
  using assms by (auto simp add: onClose_def Let_def split: option.splits)

lemma reachable_playerOk: "reachable w \<Longrightarrow> \<forall>kp \<in> set (players w). playerOk kp"
proof (induction rule: reachable.induct)
  case (start r)
  then show ?case by (simp add: initialState_def)
next
  case (connect w playerId)
  from connect.IH show ?case by (rule onConnect_playerOk)
next
  case (message w playerId parsed w')
  then show ?case using reachable_distinct onMessage_playerOk by blast
next
  case (close w playerId)
  from close.IH show ?case by (rule onClose_playerOk)
next
  case (timer w)
  from timer.IH show ?case by (rule tick_playerOk)
qed

lemma reachable_snakes: "reachable w \<Longrightarrow> \<forall>kp \<in> set (players w). 1 \<le> length (snake (snd kp))"
  using reachable_playerOk [of w] by (auto simp add: playerOk_def Suc_le_eq)

lemma reachable_pids: "reachable w \<Longrightarrow> distinct (map (\<lambda>kp. pid (snd kp)) (players w))"
proof -
  assume r: "reachable w"
  then have "map (\<lambda>kp. pid (snd kp)) (players w) = map fst (players w)"
    using reachable_playerOk [of w] by (simp add: playerOk_def)
  moreover have "distinct (map fst (players w))"
    using r by (rule reachable_distinct)
  ultimately show ?thesis by (simp only:)
qed

section \<open>Reversals\<close>

lemma tick_direction:
  assumes "i < length (players w)"
  shows "direction (snd (players (tick w) ! i)) = direction (commitDirection (snd (players w ! i)))"
    and "pendingDirection (snd (players (tick w) ! i)) =
           pendingDirection (commitDirection (snd (players w ! i)))"
  using tick_player_form [OF assms] by auto

lemma reversal_differs: "\<not> notReversal c d \<Longrightarrow> c \<noteq> d"
  by (auto simp add: notReversal_def)

lemma reversal_not_both: "\<not> notReversal c d \<Longrightarrow> notReversal c e \<Longrightarrow> e \<noteq> d"
  by (auto simp add: notReversal_def)

lemma reachable_lookup:
  assumes "reachable w" and "i < length (players w)"
  shows "lookupPlayer (fst (players w ! i)) w = Some (snd (players w ! i))"
proof -
  have "players w ! i \<in> set (players w)" using assms(2) by simp
  then have "map_of (players w) (fst (players w ! i)) = Some (snd (players w ! i))"
    using reachable_distinct [OF assms(1)] by (simp add: map_of_eq_Some_iff)
  then show ?thesis by (simp add: lookupPlayer_def)
qed

lemma joinedWorld_players:
  "players joinedWorld =
      [(''a7'', \<lparr>pid = ''a7'', name = ''Player '' @ decimal 1, snake = [(12, 12)],
          direction = JStr ''left'', pendingDirection = JNull, score = 0,
          color = JStr ''#FB5607'', alive = True\<rparr>)]"
  by (simp add: joinedWorld_def onConnect_def initialState_def assignPlayer_def
      Math_random_def getRandomPosition_def getRandomDirection_def getRandomColor_def
      arrayGet_def directions_def colors_def GRID_SIZE_def)

lemma joinedWorld_reachable: "reachable joinedWorld"
  unfolding joinedWorld_def by (intro reachable.connect reachable.start)

lemma turnedWorld_message: "onMessage ''a7'' (Some turnUp) joinedWorld = Inr turnedWorld"
  by (simp add: onMessage_def messageBody_def turnUp_def lookupPlayer_def joinedWorld_players
      notReversal_def turnedWorld_def)

lemma turnedWorld_reachable: "reachable turnedWorld"
  using joinedWorld_reachable turnedWorld_message by (rule reachable.message)

lemma turnedWorld_players:
  "players turnedWorld =
      [(''a7'', \<lparr>pid = ''a7'', name = ''Player '' @ decimal 1, snake = [(12, 12)],
          direction = JStr ''left'', pendingDirection = JStr ''up'', score = 0,
          color = JStr ''#FB5607'', alive = True\<rparr>)]"
  by (simp add: turnedWorld_def updatePlayer_def joinedWorld_players)

text \<open>
  C2. The 180-degree reversal is rejected and never committed. Let a player of a state the
  server reaches receive a \<^verbatim>\<open>directionChange\<close> whose direction \<open>d\<close> is the exact reverse of
  the player's heading. The handler refuses it: the world, the pending direction included,
  stays as it is. The pending direction the player holds is not \<open>d\<close>, and the heading after
  one tick is not \<open>d\<close>. When nothing else is buffered for the player (or the player is
  dead), the heading after the tick is the heading before it. An earlier direction that the
  handler accepted and that is still buffered is committed by the tick as usual; it is not
  \<open>d\<close> either.
\<close>

theorem reversal_never_committed:
  assumes "reachable w"
    and "i < length (players w)"
    and "getProp data ''type'' = Inr (JStr ''directionChange'')"
    and "getProp data ''direction'' = Inr d"
    and "\<not> notReversal (direction (snd (players w ! i))) d"
  shows "onMessage (fst (players w ! i)) (Some data) w = Inr w
    \<and> pendingDirection (snd (players w ! i)) \<noteq> d
    \<and> direction (snd (players (tick w) ! i)) \<noteq> d
    \<and> (\<not> truthy (pendingDirection (snd (players w ! i))) \<or> \<not> alive (snd (players w ! i))
         \<longrightarrow> direction (snd (players (tick w) ! i)) = direction (snd (players w ! i)))"
proof -
  let ?p = "snd (players w ! i)"
  have l: "lookupPlayer (fst (players w ! i)) w = Some ?p"
    using assms(1,2) by (rule reachable_lookup)
  have m: "onMessage (fst (players w ! i)) (Some data) w = Inr w"
    using l assms(3,4,5) by (simp add: onMessage_def messageBody_def)
  have "playerOk (players w ! i)"
    using reachable_playerOk [OF assms(1)] assms(2) by simp
  then have n: "notReversal (direction ?p) (pendingDirection ?p)"
    by (simp add: playerOk_def)
  have pd: "pendingDirection ?p \<noteq> d"
    using assms(5) n by (rule reversal_not_both)
  have dd: "direction ?p \<noteq> d"
    using assms(5) by (rule reversal_differs)
  have t: "direction (snd (players (tick w) ! i)) = direction (commitDirection ?p)"
    using assms(2) by (rule tick_direction(1))
  have c: "direction (commitDirection ?p) = direction ?p
      \<or> direction (commitDirection ?p) = pendingDirection ?p"
    by (simp add: commitDirection_def)
  have nd: "direction (snd (players (tick w) ! i)) \<noteq> d"
    using t c pd dd by auto
  have u: "\<not> truthy (pendingDirection ?p) \<or> \<not> alive ?p
         \<longrightarrow> direction (snd (players (tick w) ! i)) = direction ?p"
    using t by (auto simp add: commitDirection_def)
  from m pd nd u show ?thesis by blast
qed

theorem reversal_never_committed_witness:
  "direction (snd (players joinedWorld ! 0)) = JStr ''left''
   \<and> getProp turnRight ''direction'' = Inr (JStr ''right'')
   \<and> onMessage ''a7'' (Some turnRight) joinedWorld = Inr joinedWorld
   \<and> direction (snd (players (tick joinedWorld) ! 0)) = JStr ''left''
   \<and> pendingDirection (snd (players turnedWorld ! 0)) = JStr ''up''
   \<and> onMessage ''a7'' (Some turnRight) turnedWorld = Inr turnedWorld
   \<and> direction (snd (players (tick turnedWorld) ! 0)) \<noteq> JStr ''right''"
proof -
  have t: "getProp turnRight ''type'' = Inr (JStr ''directionChange'')"
    and d: "getProp turnRight ''direction'' = Inr (JStr ''right'')"
    by (simp_all add: turnRight_def)
  have r: "\<not> notReversal (direction (snd (players joinedWorld ! 0))) (JStr ''right'')"
    by (simp add: joinedWorld_players notReversal_def)
  have l: "0 < length (players joinedWorld)"
    by (simp add: joinedWorld_players)
  note th = reversal_never_committed [OF joinedWorld_reachable l t d r]
  have 1: "onMessage ''a7'' (Some turnRight) joinedWorld = Inr joinedWorld"
    using th [THEN conjunct1] by (simp add: joinedWorld_players)
  have 2: "direction (snd (players (tick joinedWorld) ! 0)) = JStr ''left''"
    using th [THEN conjunct2, THEN conjunct2, THEN conjunct2]
    by (simp add: joinedWorld_players)
  have r': "\<not> notReversal (direction (snd (players turnedWorld ! 0))) (JStr ''right'')"
    by (simp add: turnedWorld_players notReversal_def)
  have l': "0 < length (players turnedWorld)"
    by (simp add: turnedWorld_players)
  note th' = reversal_never_committed [OF turnedWorld_reachable l' t d r']
  have 3: "onMessage ''a7'' (Some turnRight) turnedWorld = Inr turnedWorld"
    using th' [THEN conjunct1] by (simp add: turnedWorld_players)
  have 4: "direction (snd (players (tick turnedWorld) ! 0)) \<noteq> JStr ''right''"
    using th' [THEN conjunct2, THEN conjunct2, THEN conjunct1] .
  from 1 2 3 4 d show ?thesis
    by (simp add: joinedWorld_players turnedWorld_players)
qed

subsection \<open>Where the test stands\<close>

text \<open>
  The loop of \<^verbatim>\<open>updateGame\<close> tests truthiness only: for an alive player it makes the pending
  direction the heading. That no reversal is committed rests on the handler, which keeps
  reversals out of the pending direction.
\<close>

lemma tick_commits_pending:
  assumes "i < length (players w)"
    and "alive (snd (players w ! i))"
    and "truthy (pendingDirection (snd (players w ! i)))"
  shows "direction (snd (players (tick w) ! i)) = pendingDirection (snd (players w ! i))"
  using assms by (simp add: tick_direction commitDirection_def)

text \<open>
  A player heading up with the pending direction down is in no state the server reaches.
\<close>

lemma reverseWorld_unreachable: "\<not> reachable reverseWorld"
proof
  assume "reachable reverseWorld"
  then have "\<forall>kp \<in> set (players reverseWorld). playerOk kp"
    by (rule reachable_playerOk)
  then show False
    by (simp add: reverseWorld_def playerOk_def snakePlayer_def notReversal_def)
qed

text \<open>
  The handler of \<^verbatim>\<open>server.js\<close> has no such test and stores the reversal: one message takes
  it from a snake heading up to \<open>reverseWorld\<close>. The handler of the newest revision refuses
  the same message.
\<close>

lemma srv_onMessage_reversal: "srv_onMessage ''a7'' (Some turnDown) upWorld = Inr reverseWorld"
  by (simp add: srv_onMessage_def turnDown_def upWorld_def reverseWorld_def lookupPlayer_def
      updatePlayer_def snakePlayer_def)

lemma onMessage_reversal_refused: "onMessage ''a7'' (Some turnDown) upWorld = Inr upWorld"
  by (simp add: onMessage_def messageBody_def turnDown_def upWorld_def lookupPlayer_def
      snakePlayer_def notReversal_def)

section \<open>The food generator\<close>

lemma getRandomPosition_rng: "snd (getRandomPosition r) = sdrop 2 r"
  by (simp add: getRandomPosition_def Math_random_def numeral_2_eq_2)

lemma candidate_0: "candidate r 0 = fst (getRandomPosition r)"
  by (simp add: candidate_def)

lemma candidate_Suc: "candidate r (Suc j) = candidate (sdrop 2 r) j"
  by (simp add: candidate_def)

lemma occupiedByLiving_occupied:
  "occupiedByLiving ps f \<Longrightarrow> positionOccupied ps f"
  by (auto simp add: occupiedByLiving_def positionOccupied_def list_ex_iff)

lemma generateFood_loop_bounded:
  "a < maxAttempts \<Longrightarrow>
   \<exists>n. 1 \<le> n \<and> a + n \<le> maxAttempts
     \<and> generateFood_loop ps r a = (candidate r (n - 1), sdrop (2 * n) r)
     \<and> (\<forall>j < n - 1. positionOccupied ps (candidate r j))
     \<and> (a + n < maxAttempts \<longrightarrow> \<not> positionOccupied ps (candidate r (n - 1)))"
proof (induction ps r a rule: generateFood_loop.induct)
  case (1 ps r attempts)
  obtain f r' where g: "getRandomPosition r = (f, r')" by (meson surj_pair)
  then have f: "f = candidate r 0" and r': "r' = sdrop 2 r"
    using getRandomPosition_rng [of r] by (simp_all add: candidate_0)
  show ?case
  proof (cases "\<not> positionOccupied ps f \<or> maxAttempts \<le> Suc attempts")
    case True
    then have "generateFood_loop ps r attempts = (candidate r 0, sdrop 2 r)"
      using g f r' by (subst generateFood_loop.simps) simp
    moreover have "attempts + 1 < maxAttempts \<longrightarrow> \<not> positionOccupied ps (candidate r 0)"
      using True f by auto
    ultimately show ?thesis
      using "1.prems" by (intro exI [of _ 1]) simp
  next
    case False
    then have lt: "Suc attempts < maxAttempts" and occ: "positionOccupied ps (candidate r 0)"
      using f by simp_all
    have rec: "generateFood_loop ps r attempts = generateFood_loop ps (sdrop 2 r) (Suc attempts)"
      using g r' False by (subst generateFood_loop.simps) simp
    obtain n where n: "1 \<le> n" "Suc attempts + n \<le> maxAttempts"
      "generateFood_loop ps r' (Suc attempts) = (candidate r' (n - 1), sdrop (2 * n) r')"
      "\<forall>j < n - 1. positionOccupied ps (candidate r' j)"
      "Suc attempts + n < maxAttempts \<longrightarrow> \<not> positionOccupied ps (candidate r' (n - 1))"
      using "1.IH" [OF g [symmetric] False lt] by blast
    have c: "candidate r' (n - 1) = candidate r (Suc n - 1)"
      using n(1) r' by (cases n) (simp_all add: candidate_Suc)
    have d: "sdrop (2 * n) r' = sdrop (2 * Suc n) r"
      using r' by simp
    have o: "\<forall>j < Suc n - 1. positionOccupied ps (candidate r j)"
    proof (intro allI impI)
      fix j assume j: "j < Suc n - 1"
      show "positionOccupied ps (candidate r j)"
      proof (cases j)
        case 0
        with occ show ?thesis by simp
      next
        case (Suc j')
        with j n(4) r' show ?thesis by (simp add: candidate_Suc)
      qed
    qed
    show ?thesis
      using n(1,2,3,5) rec r' c d o
      by (intro exI [of _ "Suc n"]) (simp del: mult_Suc_right)
  qed
qed


text \<open>
  C5. \<open>generateFood\<close> is a total function: its loop was shown above to terminate by the
  measure \<open>maxAttempts - attempts\<close>. For every world it returns the \<open>n\<close>-th position it
  draws, for some \<open>n\<close> from 1 to \<open>maxAttempts = 100\<close>, having read \<open>2 * n\<close> random numbers.
  Every position drawn before that one was rejected because a segment of a snake lay on it.
  A position returned before the hundredth draw has no segment of any snake on it, so none
  of a living snake. And when all of the hundred positions are occupied, the hundredth is
  returned as it is. (The test looks at every snake of the world, the dead ones too. The
  loop of \<^verbatim>\<open>server.js\<close> has no bound: \<open>srv_generateFood_diverges\<close>.)
\<close>

theorem generateFood_bounded:
  "\<exists>n. 1 \<le> n \<and> n \<le> maxAttempts \<and> maxAttempts = 100
     \<and> generateFood w = (candidate (rng w) (n - 1), sdrop (2 * n) (rng w))
     \<and> (\<forall>j < n - 1. positionOccupied (players w) (candidate (rng w) j))
     \<and> (n < maxAttempts \<longrightarrow>
          \<not> positionOccupied (players w) (candidate (rng w) (n - 1))
          \<and> \<not> occupiedByLiving (players w) (candidate (rng w) (n - 1)))
     \<and> ((\<forall>j < maxAttempts. positionOccupied (players w) (candidate (rng w) j))
          \<longrightarrow> n = maxAttempts)"
proof -
  have "0 < maxAttempts" by (simp add: maxAttempts_def)
  then obtain n where n: "1 \<le> n" "0 + n \<le> maxAttempts"
    "generateFood_loop (players w) (rng w) 0 = (candidate (rng w) (n - 1), sdrop (2 * n) (rng w))"
    "\<forall>j < n - 1. positionOccupied (players w) (candidate (rng w) j)"
    "0 + n < maxAttempts \<longrightarrow> \<not> positionOccupied (players w) (candidate (rng w) (n - 1))"
    using generateFood_loop_bounded [of 0 "players w" "rng w"] by blast
  have l: "n < maxAttempts \<longrightarrow> \<not> occupiedByLiving (players w) (candidate (rng w) (n - 1))"
    using n(5) occupiedByLiving_occupied [of "players w" "candidate (rng w) (n - 1)"] by auto
  have e: "(\<forall>j < maxAttempts. positionOccupied (players w) (candidate (rng w) j)) \<longrightarrow> n = maxAttempts"
  proof
    assume a: "\<forall>j < maxAttempts. positionOccupied (players w) (candidate (rng w) j)"
    show "n = maxAttempts"
    proof (rule ccontr)
      assume "n \<noteq> maxAttempts"
      with n(2) have lt: "n < maxAttempts" by simp
      then have "n - 1 < maxAttempts" by simp
      with a have "positionOccupied (players w) (candidate (rng w) (n - 1))" by blast
      with n(5) lt show False by simp
    qed
  qed
  have b: "n \<le> maxAttempts" using n(2) by simp
  have m: "maxAttempts = 100" by (simp add: maxAttempts_def)
  have g: "generateFood w = (candidate (rng w) (n - 1), sdrop (2 * n) (rng w))"
    using n(3) by (simp only: generateFood_def)
  have f: "n < maxAttempts \<longrightarrow>
          \<not> positionOccupied (players w) (candidate (rng w) (n - 1))
          \<and> \<not> occupiedByLiving (players w) (candidate (rng w) (n - 1))"
    using n(5) l by simp
  from n(1) b m g n(4) f e show ?thesis by blast
qed

lemma candidate_sconst: "candidate (sconst (1 / 2)) j = (12, 12)"
  by (simp add: candidate_def getRandomPosition_def Math_random_def GRID_SIZE_def)

theorem generateFood_bounded_witness:
  "positionOccupied (players blockedWorld) (12, 12)
   \<and> generateFood blockedWorld = ((12, 12), sconst (1 / 2))"
proof -
  have o: "positionOccupied (players blockedWorld) (12, 12)"
    by (simp add: blockedWorld_def snakePlayer_def positionOccupied_def)
  have r: "rng blockedWorld = sconst (1 / 2)"
    by (simp add: blockedWorld_def)
  obtain n where n: "generateFood blockedWorld =
        (candidate (rng blockedWorld) (n - 1), sdrop (2 * n) (rng blockedWorld))"
    using generateFood_bounded [of blockedWorld] by blast
  then show ?thesis using o by (simp add: r candidate_sconst)
qed

subsection \<open>The unbounded loop of \<^verbatim>\<open>server.js\<close>\<close>

text \<open>
  When that loop returns, it returns the first drawn position with no segment on it; it has
  no other way out.
\<close>

lemma srv_generateFood_loop_Some:
  assumes "srv_generateFood_loop ps r = Some fr"
  shows "\<exists>n. fr = (candidate r n, sdrop (2 * Suc n) r) \<and> \<not> positionOccupied ps (candidate r n)
     \<and> (\<forall>j < n. positionOccupied ps (candidate r j))"
proof (rule srv_generateFood_loop.raw_induct
    [where P = "\<lambda>ps r fr. \<exists>n. fr = (candidate r n, sdrop (2 * Suc n) r)
       \<and> \<not> positionOccupied ps (candidate r n) \<and> (\<forall>j < n. positionOccupied ps (candidate r j))",
     OF _ assms])
  fix loop :: "(string \<times> player) list \<Rightarrow> real stream \<Rightarrow> (position \<times> real stream) option"
  fix ps r fr
  assume IH: "\<And>ps r fr. loop ps r = Some fr \<Longrightarrow>
      \<exists>n. fr = (candidate r n, sdrop (2 * Suc n) r) \<and> \<not> positionOccupied ps (candidate r n)
        \<and> (\<forall>j < n. positionOccupied ps (candidate r j))"
  assume body: "(case getRandomPosition r of
        (f, r') \<Rightarrow> if positionOccupied ps f then loop ps r' else Some (f, r')) = Some fr"
  obtain f r' where g: "getRandomPosition r = (f, r')" by (meson surj_pair)
  then have f: "f = candidate r 0" and r': "r' = sdrop 2 r"
    using getRandomPosition_rng [of r] by (simp_all add: candidate_0)
  show "\<exists>n. fr = (candidate r n, sdrop (2 * Suc n) r) \<and> \<not> positionOccupied ps (candidate r n)
     \<and> (\<forall>j < n. positionOccupied ps (candidate r j))"
  proof (cases "positionOccupied ps f")
    case False
    with body g have "fr = (f, r')" by simp
    with False f r' show ?thesis by (intro exI [of _ 0]) simp
  next
    case True
    with body g have "loop ps r' = Some fr" by simp
    then obtain n where n: "fr = (candidate r' n, sdrop (2 * Suc n) r')"
      "\<not> positionOccupied ps (candidate r' n)" "\<forall>j < n. positionOccupied ps (candidate r' j)"
      using IH by blast
    have "\<forall>j < Suc n. positionOccupied ps (candidate r j)"
    proof (intro allI impI)
      fix j assume "j < Suc n"
      then show "positionOccupied ps (candidate r j)"
        using True f n(3) r' by (cases j) (simp_all add: candidate_Suc)
    qed
    then show ?thesis
      using n(1,2) r' by (intro exI [of _ "Suc n"]) (simp add: candidate_Suc)
  qed
qed

text \<open>With a segment on every position that is drawn, the loop of \<^verbatim>\<open>server.js\<close> does not end.\<close>

lemma srv_generateFood_diverges:
  assumes "\<forall>j. positionOccupied (players w) (candidate (rng w) j)"
  shows "srv_generateFood w = None"
proof (cases "srv_generateFood w")
  case None
  then show ?thesis .
next
  case (Some fr)
  then obtain n where "\<not> positionOccupied (players w) (candidate (rng w) n)"
    using srv_generateFood_loop_Some [of "players w" "rng w" fr]
    by (auto simp add: srv_generateFood_def)
  with assms show ?thesis by blast
qed

lemma srv_generateFood_blocked: "srv_generateFood blockedWorld = None"
  by (rule srv_generateFood_diverges)
     (simp add: blockedWorld_def candidate_sconst positionOccupied_def snakePlayer_def)

section \<open>Malformed messages\<close>

text \<open>
  C6. A message that \<^verbatim>\<open>JSON.parse\<close> cannot parse, a message with no readable
  \<^verbatim>\<open>type\<close> (\<^verbatim>\<open>null\<close>), and a message whose \<^verbatim>\<open>type\<close> is neither
  \<^verbatim>\<open>directionChange\<close> nor \<^verbatim>\<open>setName\<close> leave the whole state, so every player, as
  it was; and the handler returns for every message: what is thrown inside its \<^verbatim>\<open>try\<close>
  ends in its \<^verbatim>\<open>catch\<close>.
\<close>

theorem malformed_message_discarded:
  "(parsed = None
      \<or> (\<exists>data e. parsed = Some data \<and> getProp data ''type'' = Inl e)
      \<or> (\<exists>data ty. parsed = Some data \<and> getProp data ''type'' = Inr ty
            \<and> ty \<noteq> JStr ''directionChange'' \<and> ty \<noteq> JStr ''setName'')
     \<longrightarrow> onMessage playerId parsed w = Inr w)
   \<and> (\<exists>w'. onMessage playerId parsed w = Inr w')"
proof
  show "parsed = None
      \<or> (\<exists>data e. parsed = Some data \<and> getProp data ''type'' = Inl e)
      \<or> (\<exists>data ty. parsed = Some data \<and> getProp data ''type'' = Inr ty
            \<and> ty \<noteq> JStr ''directionChange'' \<and> ty \<noteq> JStr ''setName'')
     \<longrightarrow> onMessage playerId parsed w = Inr w"
    by (auto simp add: onMessage_def messageBody_def split: option.splits)
  show "\<exists>w'. onMessage playerId parsed w = Inr w'"
    by (simp add: onMessage_def split: sum.splits)
qed

theorem malformed_message_discarded_witness:
  "onMessage ''a7'' None loneWorld = Inr loneWorld
   \<and> onMessage ''a7'' (Some JNull) loneWorld = Inr loneWorld
   \<and> onMessage ''a7'' (Some pingMessage) loneWorld = Inr loneWorld"
proof -
  have "getProp JNull ''type'' = Inl TypeError" by simp
  moreover have "getProp pingMessage ''type'' = Inr (JStr ''ping'')
      \<and> JStr ''ping'' \<noteq> JStr ''directionChange'' \<and> JStr ''ping'' \<noteq> JStr ''setName''"
    by (simp add: pingMessage_def)
  ultimately show ?thesis
    using malformed_message_discarded [of None "''a7''" loneWorld, THEN conjunct1]
      malformed_message_discarded [of "Some JNull" "''a7''" loneWorld, THEN conjunct1]
      malformed_message_discarded [of "Some pingMessage" "''a7''" loneWorld, THEN conjunct1]
    by blast
qed

text \<open>
  The handler of \<^verbatim>\<open>server.js\<close> has no \<^verbatim>\<open>try\<close>: the SyntaxError of
  \<^verbatim>\<open>JSON.parse\<close> and the TypeError of reading \<^verbatim>\<open>null.type\<close> leave it. A message
  with an unknown type it ignores as well.
\<close>

lemma srv_onMessage_throws:
  "srv_onMessage playerId None w = Inl SyntaxError"
  "srv_onMessage playerId (Some JNull) w = Inl TypeError"
  by (simp_all add: srv_onMessage_def)

lemma srv_onMessage_unknown_type:
  "getProp data ''type'' = Inr ty \<Longrightarrow> ty \<noteq> JStr ''directionChange'' \<Longrightarrow> ty \<noteq> JStr ''setName''
   \<Longrightarrow> srv_onMessage playerId (Some data) w = Inr w"
  by (simp add: srv_onMessage_def)

section \<open>The snapshot\<close>

lemma snapshot_fold:
  "c_players (getClientGameState ex w) =
     foldl (snapshotStep ex) Map.empty (map (\<lambda>kp. (fst kp, clientView (snd kp))) (players w))"
proof -
  have "foldl (\<lambda>acc kp.
            if Some (fst kp) \<noteq> ex
            then acc(fst kp \<mapsto>
              \<lparr>c_snake = snake (snd kp), c_color = color (snd kp), c_alive = alive (snd kp)\<rparr>)
            else acc) acc ps
      = foldl (snapshotStep ex) acc (map (\<lambda>kp. (fst kp, clientView (snd kp))) ps)" for acc ps
    by (induction ps arbitrary: acc) (simp_all add: snapshotStep_def clientView_def)
  then show ?thesis by (simp add: getClientGameState_def)
qed

lemma snapshotStep_dom:
  "dom (foldl (snapshotStep ex) acc kvs) = dom acc \<union> {k \<in> fst ` set kvs. Some k \<noteq> ex}"
  by (induction kvs arbitrary: acc) (auto simp add: snapshotStep_def)

lemma snapshotStep_absent:
  "k \<notin> fst ` set kvs \<Longrightarrow> foldl (snapshotStep ex) acc kvs k = acc k"
  by (induction kvs arbitrary: acc) (auto simp add: snapshotStep_def)

lemma snapshotStep_present:
  "distinct (map fst kvs) \<Longrightarrow> (k, v) \<in> set kvs \<Longrightarrow> Some k \<noteq> ex \<Longrightarrow>
   foldl (snapshotStep ex) acc kvs k = Some v"
proof (induction kvs arbitrary: acc)
  case Nil
  then show ?case by simp
next
  case (Cons kv rest)
  show ?case
  proof (cases "(k, v) = kv")
    case True
    from Cons.prems(1) True have "k \<notin> fst ` set rest" by force
    then have "foldl (snapshotStep ex) (snapshotStep ex acc kv) rest k = snapshotStep ex acc kv k"
      by (rule snapshotStep_absent)
    moreover have "snapshotStep ex acc kv k = Some v"
      using True Cons.prems(3) by (auto simp add: snapshotStep_def)
    ultimately show ?thesis by simp
  next
    case False
    with Cons show ?thesis by auto
  qed
qed

text \<open>
  C8. For every world (the keys of an object differ) and every excluded id, given or not:
  the snapshot holds the food of the world; its players are keyed by exactly the keys of the
  world other than the excluded one; the entry of a player is the record of exactly its
  snake, its colour and its alive flag (\<open>clientPlayer\<close> has no other field); the excluded
  player has no entry; and two worlds with the same food and, player by player, the same
  key, snake, colour and flag have the same snapshot, whatever the names, scores, headings,
  pending headings and id fields are.
\<close>

theorem snapshot_contents:
  assumes "distinct (map fst (players w))"
  shows "c_food (getClientGameState ex w) = food w
    \<and> dom (c_players (getClientGameState ex w)) = {k \<in> fst ` set (players w). Some k \<noteq> ex}
    \<and> (\<forall>kp \<in> set (players w). Some (fst kp) \<noteq> ex \<longrightarrow>
          c_players (getClientGameState ex w) (fst kp) =
            Some \<lparr>c_snake = snake (snd kp), c_color = color (snd kp), c_alive = alive (snd kp)\<rparr>)
    \<and> (\<forall>k. ex = Some k \<longrightarrow> c_players (getClientGameState ex w) k = None)
    \<and> (\<forall>w2. food w2 = food w
          \<and> map (\<lambda>kp. (fst kp, snake (snd kp), color (snd kp), alive (snd kp))) (players w2)
            = map (\<lambda>kp. (fst kp, snake (snd kp), color (snd kp), alive (snd kp))) (players w)
          \<longrightarrow> getClientGameState ex w2 = getClientGameState ex w)"
proof -
  let ?kvs = "map (\<lambda>kp. (fst kp, clientView (snd kp))) (players w)"
  have keys: "fst ` set ?kvs = fst ` set (players w)" by force
  have d: "dom (c_players (getClientGameState ex w)) = {k \<in> fst ` set (players w). Some k \<noteq> ex}"
    unfolding snapshot_fold snapshotStep_dom keys by simp
  have dk: "distinct (map fst ?kvs)" using assms by (simp add: comp_def)
  have p: "c_players (getClientGameState ex w) (fst kp) =
            Some \<lparr>c_snake = snake (snd kp), c_color = color (snd kp), c_alive = alive (snd kp)\<rparr>"
    if "kp \<in> set (players w)" "Some (fst kp) \<noteq> ex" for kp
  proof -
    have "(fst kp, clientView (snd kp)) \<in> set ?kvs" using that(1) by force
    then have "foldl (snapshotStep ex) Map.empty ?kvs (fst kp) = Some (clientView (snd kp))"
      using dk that(2) by (intro snapshotStep_present)
    then show ?thesis by (simp add: snapshot_fold clientView_def)
  qed
  have x: "c_players (getClientGameState ex w) k = None" if "ex = Some k" for k
  proof -
    have "k \<notin> dom (c_players (getClientGameState ex w))" using that d by simp
    then show ?thesis by blast
  qed
  have i: "getClientGameState ex w2 = getClientGameState ex w"
    if "food w2 = food w
          \<and> map (\<lambda>kp. (fst kp, snake (snd kp), color (snd kp), alive (snd kp))) (players w2)
            = map (\<lambda>kp. (fst kp, snake (snd kp), color (snd kp), alive (snd kp))) (players w)" for w2
  proof -
    let ?g = "\<lambda>t :: string \<times> position list \<times> jsval \<times> bool.
        (fst t, \<lparr>c_snake = fst (snd t), c_color = fst (snd (snd t)), c_alive = snd (snd (snd t))\<rparr>)"
    let ?f = "\<lambda>kp :: string \<times> player. (fst kp, snake (snd kp), color (snd kp), alive (snd kp))"
    from that have "map ?f (players w2) = map ?f (players w)" by simp
    then have "map ?g (map ?f (players w2)) = map ?g (map ?f (players w))"
      by (rule arg_cong)
    then have "map (\<lambda>kp. (fst kp, clientView (snd kp))) (players w2) = ?kvs"
      by (simp add: comp_def clientView_def)
    then have "c_players (getClientGameState ex w2) = c_players (getClientGameState ex w)"
      by (simp add: snapshot_fold)
    moreover have "c_food (getClientGameState ex w2) = c_food (getClientGameState ex w)"
      using that by (simp add: getClientGameState_def)
    ultimately show ?thesis by simp
  qed
  have f: "c_food (getClientGameState ex w) = food w" by (simp add: getClientGameState_def)
  from f d p x i show ?thesis by blast
qed

theorem snapshot_contents_witness:
  "c_food (getClientGameState (Some ''a7'') crashWorld) = Some (3, 3)
   \<and> c_players (getClientGameState (Some ''a7'') crashWorld) ''a7'' = None
   \<and> c_players (getClientGameState (Some ''a7'') crashWorld) ''b2'' =
       Some \<lparr>c_snake = [(5, 4), (5, 5)], c_color = JStr ''#FF6B6B'', c_alive = True\<rparr>
   \<and> dom (c_players (getClientGameState None crashWorld)) = {''a7'', ''b2''}"
proof -
  let ?b = "(''b2'', snakePlayer ''b2'' [(5, 4), (5, 5)] ''up'')"
  have d: "distinct (map fst (players crashWorld))"
    by (simp add: crashWorld_def)
  have m: "?b \<in> set (players crashWorld)"
    by (simp add: crashWorld_def)
  note sc = snapshot_contents [OF d, of "Some ''a7''"]
  have 1: "c_food (getClientGameState (Some ''a7'') crashWorld) = Some (3, 3)"
    using sc [THEN conjunct1] by (simp add: crashWorld_def)
  have 2: "c_players (getClientGameState (Some ''a7'') crashWorld) ''a7'' = None"
    using sc [THEN conjunct2, THEN conjunct2, THEN conjunct2, THEN conjunct1] by simp
  have "Some (fst ?b) \<noteq> Some ''a7'' \<longrightarrow>
      c_players (getClientGameState (Some ''a7'') crashWorld) (fst ?b) =
        Some \<lparr>c_snake = snake (snd ?b), c_color = color (snd ?b), c_alive = alive (snd ?b)\<rparr>"
    using sc [THEN conjunct2, THEN conjunct2, THEN conjunct1] m by (rule bspec)
  then have 3: "c_players (getClientGameState (Some ''a7'') crashWorld) ''b2'' =
       Some \<lparr>c_snake = [(5, 4), (5, 5)], c_color = JStr ''#FF6B6B'', c_alive = True\<rparr>"
    by (simp add: snakePlayer_def)
  have "dom (c_players (getClientGameState None crashWorld))
      = {k \<in> fst ` set (players crashWorld). Some k \<noteq> None}"
    using snapshot_contents [OF d, of None] by (rule conjunct2 [THEN conjunct1])
  then have 4: "dom (c_players (getClientGameState None crashWorld)) = {''a7'', ''b2''}"
    by (auto simp add: crashWorld_def)
  from 1 2 3 4 show ?thesis by simp
qed

section \<open>A tick, step by step\<close>

text \<open>
  One player at \<open>(5, 5)\<close> heading right, food at \<open>(6, 5)\<close>, and a random source that
  returns 0.5 for ever: the snake eats and has two segments, the score is \<open>FOOD_SCORE\<close>, and
  the new food is at \<open>(12, 12)\<close>.
\<close>

lemma generateFood_free:
  "\<not> positionOccupied (players w) (fst (getRandomPosition (rng w))) \<Longrightarrow>
   generateFood w = getRandomPosition (rng w)"
  unfolding generateFood_def
  by (subst generateFood_loop.simps) (auto split: prod.splits)

lemma tick_loneWorld:
  "tick loneWorld =
     \<lparr>players = [(''a7'', (snakePlayer ''a7'' [(6, 5), (5, 5)] ''right'')\<lparr>score := 1\<rparr>)],
      food = Some (12, 12), gameInterval = True, rng = sconst (1 / 2)\<rparr>"
proof -
  let ?p = "(snakePlayer ''a7'' [(6, 5), (5, 5)] ''right'')\<lparr>score := 1\<rparr>"
  let ?w2 = "\<lparr>players = [(''a7'', ?p)],
      food = Some (6, 5), gameInterval = True, rng = sconst (1 / 2)\<rparr>"
  let ?w3 = "\<lparr>players = [(''a7'', ?p)],
      food = Some (12, 12), gameInterval = True, rng = sconst (1 / 2)\<rparr>"
  have g: "generateFood ?w2 = ((12, 12), sconst (1 / 2))"
    by (subst generateFood_free)
       (simp_all add: getRandomPosition_def Math_random_def GRID_SIZE_def positionOccupied_def
          snakePlayer_def)
  have m: "movePlayers (commitDirections loneWorld) = ?w3"
    using g
    by (simp add: movePlayers_def movePlayersUpTo_def commitDirections_def commitDirection_def
        loneWorld_def snakePlayer_def movePlayer_def newHead_def shiftHead_def wrapHead_def
        js_rem_def GRID_SIZE_def FOOD_SCORE_def setPlayer_def Let_def)
  have s: "allSegments [(''a7'', ?p)] =
      [\<lparr>seg_x = 6, seg_y = 5, seg_playerId = ''a7'', seg_isHead = True\<rparr>,
       \<lparr>seg_x = 5, seg_y = 5, seg_playerId = ''a7'', seg_isHead = False\<rparr>]"
    by (simp add: allSegments_def snakeSegments_def snakePlayer_def)
  have c: "checkCollisions ?w3 = Inr ?w3"
    by (simp add: checkCollisions_def s) (simp add: collision_def hits_def snakePlayer_def)
  have r: "refreshFood ?w3 = ?w3"
    by (simp add: refreshFood_def Math_random_def)
  show ?thesis
    by (simp add: tick_def updateGame_def m c r)
qed

end
